theory Spec2Isabelle
  imports Complex_Main "HOL-Library.Monad_Syntax" "HOL-Library.Log_Nat"
begin

section \<open>Data model\<close>

text \<open>
  The shared types of \<^verbatim>\<open>@deep-research/types\<close> as the backend uses them, and the
  \<^verbatim>\<open>SessionData\<close> interface of \<^verbatim>\<open>session-manager.ts\<close>. JavaScript numbers that
  hold counters, bounds and clock readings are integers here; a \<^verbatim>\<open>Date\<close> is its
  millisecond value, which is what \<^verbatim>\<open>>\<close> compares.
\<close>

datatype session_status = Pending | Running | Completed | Error

record ResearchProgress =
  p_sessionId :: string
  currentDepth :: int
  totalDepth :: int
  currentBreadth :: int
  totalBreadth :: int
  currentQuery :: "string option"
  totalQueries :: int
  completedQueries :: int
  p_status :: session_status
  p_progress :: int
  message :: "string option"

record ResearchResult =
  r_sessionId :: string
  r_query :: string
  learnings :: "string list"
  visitedUrls :: "string list"
  report :: "string option"
  timestamp :: int
  duration :: int
  success :: bool
  r_error :: "string option"

record SessionData =
  sessionId :: string
  query :: string
  breadth :: int
  depth :: int
  status :: session_status
  progress :: "ResearchProgress option"
  result :: "ResearchResult option"
  createdAt :: int
  updatedAt :: int
  expiresAt :: int

section \<open>Session store (session-manager.ts)\<close>

text \<open>
  \<^verbatim>\<open>SessionManager.sessions\<close> is a \<^verbatim>\<open>Map<string, SessionData>\<close>: a partial map from
  ids to entries. Each method takes the store and returns the new one; \<^verbatim>\<open>new Date()\<close>
  is the argument \<open>now\<close> (one clock reading per call) and the identifier that
  \<^verbatim>\<open>uuidv4()\<close> draws is the argument \<open>uid\<close>.
\<close>

type_synonym session_store = "string \<rightharpoonup> SessionData"

definition SESSION_EXPIRY_MS :: int where
  "SESSION_EXPIRY_MS = 24 * 60 * 60 * 1000"

definition CLEANUP_INTERVAL_MS :: int where
  "CLEANUP_INTERVAL_MS = 60 * 60 * 1000"

definition createSession ::
  "int \<Rightarrow> string \<Rightarrow> string \<Rightarrow> int \<Rightarrow> int \<Rightarrow> session_store \<Rightarrow> string \<times> session_store"
where
  "createSession now uid q b d sessions =
     (uid, sessions(uid \<mapsto>
        \<lparr> sessionId = uid, query = q, breadth = b, depth = d, status = Pending,
          progress = None, result = None, createdAt = now, updatedAt = now,
          expiresAt = now + SESSION_EXPIRY_MS \<rparr>))"

definition getSession ::
  "int \<Rightarrow> string \<Rightarrow> session_store \<Rightarrow> SessionData option \<times> session_store"
where
  "getSession now sid sessions =
     (case sessions sid of
        None \<Rightarrow> (None, sessions)
      | Some session \<Rightarrow>
          if now > expiresAt session then (None, sessions(sid := None))
          else (Some session, sessions))"

definition updateSessionStatus ::
  "int \<Rightarrow> string \<Rightarrow> session_status \<Rightarrow> session_store \<Rightarrow> session_store"
where
  "updateSessionStatus now sid s sessions =
     (case sessions sid of
        None \<Rightarrow> sessions
      | Some session \<Rightarrow> sessions(sid \<mapsto> session\<lparr>status := s, updatedAt := now\<rparr>))"

definition updateSessionProgress ::
  "int \<Rightarrow> string \<Rightarrow> ResearchProgress \<Rightarrow> session_store \<Rightarrow> session_store"
where
  "updateSessionProgress now sid p sessions =
     (case sessions sid of
        None \<Rightarrow> sessions
      | Some session \<Rightarrow> sessions(sid \<mapsto> session\<lparr>progress := Some p, updatedAt := now\<rparr>))"

definition updateSessionResult ::
  "int \<Rightarrow> string \<Rightarrow> ResearchResult \<Rightarrow> session_store \<Rightarrow> session_store"
where
  "updateSessionResult now sid r sessions =
     (case sessions sid of
        None \<Rightarrow> sessions
      | Some session \<Rightarrow>
          sessions(sid \<mapsto> session\<lparr>result := Some r, status := Completed, updatedAt := now\<rparr>))"

definition setSessionError ::
  "int \<Rightarrow> string \<Rightarrow> string \<Rightarrow> session_store \<Rightarrow> session_store"
where
  "setSessionError now sid err sessions =
     (case sessions sid of
        None \<Rightarrow> sessions
      | Some session \<Rightarrow>
          sessions(sid \<mapsto> session\<lparr>
            status := Error,
            result := Some \<lparr> r_sessionId = sid, r_query = query session, learnings = [],
                             visitedUrls = [], report = None, timestamp = now, duration = 0,
                             success = False, r_error = Some err \<rparr>,
            updatedAt := now\<rparr>))"

definition deleteSession :: "string \<Rightarrow> session_store \<Rightarrow> bool \<times> session_store" where
  "deleteSession sid sessions = (sessions sid \<noteq> None, sessions(sid := None))"

definition cleanupExpiredSessions :: "int \<Rightarrow> session_store \<Rightarrow> session_store" where
  "cleanupExpiredSessions now sessions =
     (\<lambda>sid. case sessions sid of
               None \<Rightarrow> None
             | Some session \<Rightarrow> if now > expiresAt session then None else Some session)"

text \<open>
  The stores the process can be in: the empty map of the constructor, closed under every
  public method and the hourly sweep, at any clock reading.
\<close>

inductive reachable :: "session_store \<Rightarrow> bool" where
  r_init: "reachable Map.empty"
| r_create: "reachable st \<Longrightarrow> reachable (snd (createSession now uid q b d st))"
| r_get: "reachable st \<Longrightarrow> reachable (snd (getSession now sid st))"
| r_status: "reachable st \<Longrightarrow> reachable (updateSessionStatus now sid s st)"
| r_progress: "reachable st \<Longrightarrow> reachable (updateSessionProgress now sid p st)"
| r_result: "reachable st \<Longrightarrow> reachable (updateSessionResult now sid r st)"
| r_error: "reachable st \<Longrightarrow> reachable (setSessionError now sid err st)"
| r_delete: "reachable st \<Longrightarrow> reachable (snd (deleteSession sid st))"
| r_cleanup: "reachable st \<Longrightarrow> reachable (cleanupExpiredSessions now st)"

definition ttl_fixed :: "session_store \<Rightarrow> bool" where
  "ttl_fixed st \<longleftrightarrow>
     (\<forall>sid session. st sid = Some session \<longrightarrow>
        expiresAt session = createdAt session + SESSION_EXPIRY_MS)"

section \<open>Prompt budgeter (ai/providers.ts)\<close>

text \<open>
  \<^verbatim>\<open>trimPrompt\<close> calls two components that are not part of this source tree: the
  tokenizer of \<^verbatim>\<open>js-tiktoken\<close> (\<^verbatim>\<open>encoder.encode\<close>), and
  \<^verbatim>\<open>RecursiveCharacterTextSplitter.splitText\<close> of \<^verbatim>\<open>./text-splitter\<close>. Both are
  parameters of the model: \<open>encode\<close> maps a text to its token list, and
  \<open>splitText chunkSize text\<close> is the list of chunks (the splitter is built with
  \<^verbatim>\<open>chunkOverlap: 0\<close>, and its constructor only raises when
  \<^verbatim>\<open>chunkOverlap >= chunkSize\<close>, which the floor check before it excludes).
  A string is a list of characters and \<^verbatim>\<open>.length\<close> is its length. The budget
  \<open>contextSize\<close> is an integer.
\<close>

definition MinChunkSize :: int where
  "MinChunkSize = 140"

text \<open>\<^verbatim>\<open>splitter.splitText(prompt)[0] ?? ''\<close>\<close>

definition firstChunk :: "string list \<Rightarrow> string" where
  "firstChunk chunks = (case chunks of [] \<Rightarrow> [] | c # _ \<Rightarrow> c)"

text \<open>
  One activation of \<^verbatim>\<open>trimPrompt\<close>: it either returns a value or makes its tail call
  on a new prompt with the same budget.
\<close>

datatype trim_step = Return string | Recurse string

definition trimStep ::
  "(string \<Rightarrow> 'tok list) \<Rightarrow> (nat \<Rightarrow> string \<Rightarrow> string list) \<Rightarrow> string \<Rightarrow> int \<Rightarrow> trim_step"
where
  "trimStep encode splitText prompt contextSize =
     (if prompt = [] then Return []
      else
        let len = int (length (encode prompt)) in
        if len \<le> contextSize then Return prompt
        else
          let overflowTokens = len - contextSize;
              chunkSize = int (length prompt) - overflowTokens * 3 in
          if chunkSize < MinChunkSize then Return (take (nat MinChunkSize) prompt)
          else
            let trimmedPrompt = firstChunk (splitText (nat chunkSize) prompt) in
            if length trimmedPrompt = length prompt
            then Recurse (take (nat chunkSize) prompt)
            else Recurse trimmedPrompt)"

partial_function (option) trimPrompt ::
  "(string \<Rightarrow> 'tok list) \<Rightarrow> (nat \<Rightarrow> string \<Rightarrow> string list) \<Rightarrow> string \<Rightarrow> int \<Rightarrow> string option"
where
  "trimPrompt encode splitText prompt contextSize =
     (case trimStep encode splitText prompt contextSize of
        Return r \<Rightarrow> Some r
      | Recurse p \<Rightarrow> trimPrompt encode splitText p contextSize)"

declare trimPrompt.simps [code]

text \<open>
  What the proofs ask of the splitter: its first chunk is never longer than the text it
  was given.
\<close>

definition nonexpanding :: "(nat \<Rightarrow> string \<Rightarrow> string list) \<Rightarrow> bool" where
  "nonexpanding splitText \<longleftrightarrow>
     (\<forall>chunkSize text. length (firstChunk (splitText chunkSize text)) \<le> length text)"

text \<open>
  Concrete instances of the parameters, for evaluating \<^verbatim>\<open>trimPrompt\<close> on concrete
  inputs. \<open>wordTokens\<close> is a tokenizer with one token per whitespace-separated word.
\<close>

definition isSpace :: "char \<Rightarrow> bool" where
  "isSpace c \<longleftrightarrow> c = CHR '' '' \<or> c = CHR 0x0A"

fun wordsFrom :: "string \<Rightarrow> string \<Rightarrow> string list" where
  "wordsFrom w [] = (if w = [] then [] else [w])"
| "wordsFrom w (c # cs) =
     (if isSpace c then (if w = [] then wordsFrom [] cs else w # wordsFrom [] cs)
      else wordsFrom (w @ [c]) cs)"

definition wordTokens :: "string \<Rightarrow> string list" where
  "wordTokens text = wordsFrom [] text"

text \<open>\<open>quadTokens\<close> is a tokenizer with one token per four characters.\<close>

definition quadTokens :: "string \<Rightarrow> string list" where
  "quadTokens text =
     map (\<lambda>i. take 4 (drop (4 * i) text)) [0 ..< (length text + 3) div 4]"

text \<open>
  Modelled from the spec: the text splitter (\<^verbatim>\<open>splitText\<close> of \<^verbatim>\<open>./text-splitter\<close>, not in
  this source tree) splits "the text on structural boundaries (paragraph, then sentence,
  then word)". \<open>paragraphSplitter\<close> is the first of these levels alone: the text cut at
  every blank line (\<^verbatim>\<open>text.split('\n\n')\<close>), whatever the chunk size.
\<close>

fun paragraphsFrom :: "string \<Rightarrow> string \<Rightarrow> string list" where
  "paragraphsFrom par [] = [par]"
| "paragraphsFrom par [c] = [par @ [c]]"
| "paragraphsFrom par (c # d # cs) =
     (if c = CHR 0x0A \<and> d = CHR 0x0A then par # paragraphsFrom [] cs
      else paragraphsFrom (par @ [c]) (d # cs))"

definition paragraphSplitter :: "nat \<Rightarrow> string \<Rightarrow> string list" where
  "paragraphSplitter chunkSize text = paragraphsFrom [] text"

text \<open>
  Modelled from the spec: the same absent splitter in the case the spec singles out, a
  splitter that "happens to return unchanged input".
\<close>

definition identitySplitter :: "nat \<Rightarrow> string \<Rightarrow> string list" where
  "identitySplitter chunkSize text = [text]"

text \<open>
  A concrete prompt: a short first paragraph, a blank line, and one word of 140
  characters (154 characters, three words).
\<close>

definition samplePrompt :: string where
  "samplePrompt = ''Hello world.'' @ [CHR 0x0A, CHR 0x0A] @ replicate 140 CHR ''a''"

text \<open>The same with a second paragraph of 600 characters (614 characters).\<close>

definition longPrompt :: string where
  "longPrompt = ''Hello world.'' @ [CHR 0x0A, CHR 0x0A] @ replicate 600 CHR ''a''"

section \<open>Research API (api.ts, middleware.ts)\<close>

subsection \<open>Progress events\<close>

text \<open>
  The argument of the \<^verbatim>\<open>onProgress\<close> callback, with the fields the handler reads. The
  engine that calls it (\<^verbatim>\<open>deepResearch\<close> of \<^verbatim>\<open>./deep-research\<close>) is not part of this
  source tree; its callbacks, its result and its failure are inputs of the model.
\<close>

record InternalResearchProgress =
  cb_currentDepth :: int
  cb_totalDepth :: int
  cb_currentBreadth :: int
  cb_totalBreadth :: int
  cb_currentQuery :: "string option"
  cb_totalQueries :: int
  cb_completedQueries :: int

text \<open>
  JavaScript numbers are IEEE 754 binary64 values, and \<^verbatim>\<open>/\<close> and \<^verbatim>\<open>*\<close> return the
  exact result rounded to the nearest such value, ties to the even significand. A double
  is the rational number it denotes. \<open>expo x\<close> is the binary exponent of a positive
  \<open>x\<close> (the \<open>e\<close> with \<open>2\<^sup>e \<le> x < 2\<^sup>e\<^sup>+\<^sup>1\<close>), \<open>rne\<close> rounds to the nearest integer
  with ties to even, and \<open>fl x\<close> is \<open>x\<close> rounded to a significand of 53 bits. The
  exponent range is left unbounded: the counters are integers a double holds exactly
  (below \<open>2\<^sup>5\<^sup>3\<close> in magnitude), so every quotient and product here is zero or has a
  magnitude between \<open>2\<^sup>-\<^sup>5\<^sup>3\<close> and \<open>2\<^sup>6\<^sup>0\<close>, far from overflow and underflow.
\<close>

definition rne :: "rat \<Rightarrow> int" where
  "rne q =
     (let f = \<lfloor>q\<rfloor>; r = q - of_int f
      in if r < 1 / 2 then f else if 1 / 2 < r then f + 1 else if even f then f else f + 1)"

definition expo :: "rat \<Rightarrow> int" where
  "expo x = (if 1 \<le> x then bitlen \<lfloor>x\<rfloor> - 1 else - bitlen (\<lceil>1 / x\<rceil> - 1))"

definition fl :: "rat \<Rightarrow> rat" where
  "fl x =
     (if x = 0 then 0
      else let a = \<bar>x\<bar>; u = 2 powi (expo a - 52)
           in sgn x * of_int (rne (a / u)) * u)"

text \<open>
  \<^verbatim>\<open>Math.round\<close> returns the integer nearest to its argument, a half rounded towards
  plus infinity; it is exact on the double it is given.
\<close>

definition Math_round :: "rat \<Rightarrow> int" where
  "Math_round x = \<lfloor>x + 1 / 2\<rfloor>"

text \<open>
  \<open>completion\<close> is the exact ratio of the two counters;
  \<^verbatim>\<open>Math.round((completedQueries / Math.max(totalQueries, 1)) * 100)\<close> divides and
  multiplies in doubles.
\<close>

definition completion :: "int \<Rightarrow> int \<Rightarrow> rat" where
  "completion completedQ totalQ = of_int completedQ / of_int (max totalQ 1)"

definition percentage :: "int \<Rightarrow> int \<Rightarrow> int" where
  "percentage completedQ totalQ = Math_round (fl (fl (completion completedQ totalQ) * 100))"

definition researchProgress :: "string \<Rightarrow> InternalResearchProgress \<Rightarrow> ResearchProgress" where
  "researchProgress sid cb =
     \<lparr> p_sessionId = sid,
       currentDepth = cb_currentDepth cb,
       totalDepth = cb_totalDepth cb,
       currentBreadth = cb_currentBreadth cb,
       totalBreadth = cb_totalBreadth cb,
       currentQuery = cb_currentQuery cb,
       totalQueries = cb_totalQueries cb,
       completedQueries = cb_completedQueries cb,
       p_status = Running,
       p_progress = percentage (cb_completedQueries cb) (cb_totalQueries cb),
       message = None \<rparr>"

definition finalProgress :: "string \<Rightarrow> int \<Rightarrow> int \<Rightarrow> string list \<Rightarrow> ResearchProgress" where
  "finalProgress sid d b ls =
     \<lparr> p_sessionId = sid, currentDepth = 0, totalDepth = d, currentBreadth = 0,
       totalBreadth = b, currentQuery = None, totalQueries = int (length ls),
       completedQueries = int (length ls), p_status = Completed, p_progress = 100,
       message = None \<rparr>"

definition errorProgress :: "string \<Rightarrow> int \<Rightarrow> int \<Rightarrow> string \<Rightarrow> ResearchProgress" where
  "errorProgress sid d b errorMessage =
     \<lparr> p_sessionId = sid, currentDepth = 0, totalDepth = d, currentBreadth = 0,
       totalBreadth = b, currentQuery = None, totalQueries = 0,
       completedQueries = 0, p_status = Error, p_progress = 0,
       message = Some errorMessage \<rparr>"

subsection \<open>Server state and the progress stream\<close>

text \<open>
  The module state of \<^verbatim>\<open>api.ts\<close>: the session manager's store, the map
  \<^verbatim>\<open>sseClients\<close> from session ids to arrays of open responses, and the environment the
  handlers read. A response object is a number; \<open>written\<close> is what has been written to
  it so far, one entry per \<^verbatim>\<open>res.write\<close> (the serialised event is the event);
  \<open>broken\<close> holds the responses whose \<^verbatim>\<open>write\<close> throws; \<open>listening\<close> holds the
  responses whose request has the \<^verbatim>\<open>close\<close> listener installed; \<open>clock\<close> is the
  current time.
\<close>

record api_state =
  store :: session_store
  sseClients :: "string \<rightharpoonup> nat list"
  written :: "nat \<Rightarrow> ResearchProgress list"
  broken :: "nat set"
  listening :: "nat set"
  clock :: int

definition res_write :: "nat \<Rightarrow> ResearchProgress \<Rightarrow> api_state \<Rightarrow> api_state" where
  "res_write res p st = st\<lparr>written := (written st)(res := written st res @ [p])\<rparr>"

definition sendProgressUpdate :: "string \<Rightarrow> ResearchProgress \<Rightarrow> api_state \<Rightarrow> api_state" where
  "sendProgressUpdate sid p st =
     (case sseClients st sid of
        None \<Rightarrow> st
      | Some clients \<Rightarrow>
          if clients = [] then st
          else
            let st1 = foldl (\<lambda>s client. if client \<in> broken st then s else res_write client p s)
                        st clients;
                deadClients = filter (\<lambda>client. client \<in> broken st) clients
            in if deadClients \<noteq> [] then
                 let remaining = filter (\<lambda>c. c \<notin> set deadClients) clients
                 in if remaining = []
                    then st1\<lparr>sseClients := (sseClients st1)(sid := None)\<rparr>
                    else st1\<lparr>sseClients := (sseClients st1)(sid \<mapsto> remaining)\<rparr>
               else st1)"

text \<open>
  \<^verbatim>\<open>GET /progress/:sessionId\<close>. The response is registered first; the stored progress,
  if there is one, is written to it outside any \<^verbatim>\<open>try\<close>, so a \<^verbatim>\<open>write\<close> that throws
  ends the handler there, with nothing written and no \<^verbatim>\<open>close\<close> listener; otherwise
  the listener is installed last.
\<close>

definition progress_connect :: "string \<Rightarrow> nat \<Rightarrow> api_state \<Rightarrow> api_state" where
  "progress_connect sid res st =
     (let clients = (case sseClients st sid of None \<Rightarrow> [] | Some cs \<Rightarrow> cs);
          st1 = st\<lparr>sseClients := (sseClients st)(sid \<mapsto> clients @ [res])\<rparr>;
          (session, sessions') = getSession (clock st1) sid (store st1);
          st2 = st1\<lparr>store := sessions'\<rparr>
      in case (case session of None \<Rightarrow> None | Some s \<Rightarrow> progress s) of
           None \<Rightarrow> st2\<lparr>listening := insert res (listening st2)\<rparr>
         | Some p \<Rightarrow>
             if res \<in> broken st2 then st2
             else let st3 = res_write res p st2
                  in st3\<lparr>listening := insert res (listening st3)\<rparr>)"

text \<open>The \<^verbatim>\<open>close\<close> event of the request of a response; it runs the listener, if any.\<close>

definition progress_close :: "string \<Rightarrow> nat \<Rightarrow> api_state \<Rightarrow> api_state" where
  "progress_close sid res st =
     (if res \<notin> listening st then st
      else case sseClients st sid of
        None \<Rightarrow> st
      | Some clients \<Rightarrow>
          let clients' = remove1 res clients
          in if clients' = [] then st\<lparr>sseClients := (sseClients st)(sid := None)\<rparr>
             else st\<lparr>sseClients := (sseClients st)(sid \<mapsto> clients')\<rparr>)"

subsection \<open>POST /research\<close>

text \<open>
  The request body after \<^verbatim>\<open>express.json\<close>: each field is absent, a number, a string,
  or a value of another JSON type. \<^verbatim>\<open>researchSchema.safeParse\<close> is \<open>researchSchema\<close>,
  with \<open>None\<close> for a failed parse and the parsed data (defaults filled in) otherwise.
\<close>

datatype jval = JAbsent | JNum rat | JStr string | JOther

datatype llm_val = LAbsent | LObject jval jval | LOther

record research_body =
  b_query :: jval
  b_breadth :: jval
  b_depth :: jval
  b_llmConfig :: llm_val
  b_customGptId :: jval

record ResearchQuery =
  q_query :: string
  q_breadth :: int
  q_depth :: int
  q_llmConfig :: "(string option \<times> string option) option"
  q_customGptId :: "string option"

text \<open>\<^verbatim>\<open>z.string().min(lo).max(hi)\<close>\<close>

definition z_string_min_max :: "nat \<Rightarrow> nat \<Rightarrow> jval \<Rightarrow> string option" where
  "z_string_min_max lo hi v =
     (case v of
        JStr s \<Rightarrow> if lo \<le> length s \<and> length s \<le> hi then Some s else None
      | _ \<Rightarrow> None)"

text \<open>\<^verbatim>\<open>z.number().int().min(lo).max(hi).default(d)\<close>\<close>

definition z_int_min_max_default :: "int \<Rightarrow> int \<Rightarrow> int \<Rightarrow> jval \<Rightarrow> int option" where
  "z_int_min_max_default lo hi d v =
     (case v of
        JAbsent \<Rightarrow> Some d
      | JNum x \<Rightarrow>
          if of_int \<lfloor>x\<rfloor> = x \<and> of_int lo \<le> x \<and> x \<le> of_int hi then Some \<lfloor>x\<rfloor> else None
      | _ \<Rightarrow> None)"

text \<open>\<^verbatim>\<open>z.string().optional()\<close>\<close>

definition z_string_optional :: "jval \<Rightarrow> string option option" where
  "z_string_optional v =
     (case v of JAbsent \<Rightarrow> Some None | JStr s \<Rightarrow> Some (Some s) | _ \<Rightarrow> None)"

text \<open>\<^verbatim>\<open>z.enum(['openai', 'fireworks', 'openrouter', 'custom']).optional()\<close>\<close>

definition z_provider_optional :: "jval \<Rightarrow> string option option" where
  "z_provider_optional v =
     (case v of
        JAbsent \<Rightarrow> Some None
      | JStr s \<Rightarrow>
          if s \<in> set [''openai'', ''fireworks'', ''openrouter'', ''custom'']
          then Some (Some s) else None
      | _ \<Rightarrow> None)"

definition z_llmConfig :: "llm_val \<Rightarrow> (string option \<times> string option) option option" where
  "z_llmConfig v =
     (case v of
        LAbsent \<Rightarrow> Some None
      | LObject provider model \<Rightarrow>
          do { p \<leftarrow> z_provider_optional provider;
               m \<leftarrow> z_string_optional model;
               Some (Some (p, m)) }
      | LOther \<Rightarrow> None)"

definition researchSchema :: "research_body \<Rightarrow> ResearchQuery option" where
  "researchSchema body =
     do { q \<leftarrow> z_string_min_max 1 1000 (b_query body);
          b \<leftarrow> z_int_min_max_default 2 10 5 (b_breadth body);
          d \<leftarrow> z_int_min_max_default 1 5 3 (b_depth body);
          l \<leftarrow> z_llmConfig (b_llmConfig body);
          g \<leftarrow> z_string_optional (b_customGptId body);
          Some \<lparr> q_query = q, q_breadth = b, q_depth = d, q_llmConfig = l,
                 q_customGptId = g \<rparr> }"

datatype http_response =
    Accepted string session_status
  | ValidationError
  | TooManyRequests
  | InternalServerError

text \<open>
  What the middleware in front of the validator reads of a request: its \<^verbatim>\<open>Origin\<close>
  header, whether \<^verbatim>\<open>express.json\<close> raises on its body (malformed JSON, or more than
  the 10mb limit), and the body as parsed otherwise.
\<close>

record research_request =
  h_origin :: "string option"
  h_body_raises :: bool
  h_body :: research_body

text \<open>
  \<^verbatim>\<open>corsOptions.origin\<close>: a request without an origin, or from one of the allowed
  origins, is let through; \<open>frontendUrl\<close> is \<^verbatim>\<open>process.env.FRONTEND_URL\<close>.
\<close>

definition allowedOrigins :: "string option \<Rightarrow> string list" where
  "allowedOrigins frontendUrl =
     [(case frontendUrl of
         None \<Rightarrow> ''http://localhost:3000''
       | Some url \<Rightarrow> if url = [] then ''http://localhost:3000'' else url),
      ''http://localhost:3000'',
      ''http://localhost:3051'']"

definition corsOptions_origin :: "string option \<Rightarrow> string option \<Rightarrow> bool" where
  "corsOptions_origin frontendUrl origin =
     (case origin of
        None \<Rightarrow> True
      | Some orig \<Rightarrow> orig = [] \<or> orig \<in> set (allowedOrigins frontendUrl))"

text \<open>
  The middleware of the application in the order it is mounted, then the route:
  \<^verbatim>\<open>requestIdMiddleware\<close> and \<^verbatim>\<open>requestLogger\<close> always call \<^verbatim>\<open>next\<close>;
  \<^verbatim>\<open>cors(corsOptions)\<close> passes the error of a refused origin, and \<^verbatim>\<open>express.json\<close>
  the error of a body it cannot read, to \<^verbatim>\<open>errorHandler\<close>, which answers 500;
  \<^verbatim>\<open>rateLimiter\<close> and, on the route, \<^verbatim>\<open>researchRateLimiter\<close> answer 429 to a caller
  over their limit and do not call \<^verbatim>\<open>next\<close> (whether the caller is over a limit is
  an input, \<open>limited\<close> and \<open>researchLimited\<close>); \<^verbatim>\<open>validateBody(researchSchema)\<close>
  answers 400 when the parse fails; then the handler runs. The handler creates the
  session, answers with its id and \<^verbatim>\<open>status: 'pending'\<close>, and marks the session
  running before it starts the engine.
\<close>

definition research_handler ::
  "string \<Rightarrow> ResearchQuery \<Rightarrow> api_state \<Rightarrow> http_response \<times> api_state"
where
  "research_handler uid q st =
     (let (sid, sessions1) =
            createSession (clock st) uid (q_query q) (q_breadth q) (q_depth q) (store st)
      in (Accepted sid Pending,
          st\<lparr>store := updateSessionStatus (clock st) sid Running sessions1\<rparr>))"

definition post_research ::
  "string option \<Rightarrow> bool \<Rightarrow> bool \<Rightarrow> string \<Rightarrow> research_request \<Rightarrow> api_state
     \<Rightarrow> http_response \<times> api_state"
where
  "post_research frontendUrl limited researchLimited uid req st =
     (if \<not> corsOptions_origin frontendUrl (h_origin req) then (InternalServerError, st)
      else if h_body_raises req then (InternalServerError, st)
      else if limited then (TooManyRequests, st)
      else if researchLimited then (TooManyRequests, st)
      else case researchSchema (h_body req) of
             None \<Rightarrow> (ValidationError, st)
           | Some q \<Rightarrow> research_handler uid q st)"

text \<open>
  The variables the background part of the handler closes over, and its three
  continuations: the \<^verbatim>\<open>onProgress\<close> callback, the \<^verbatim>\<open>.then\<close> continuation (engine and
  report writer succeeded) and the \<^verbatim>\<open>.catch\<close> continuation (either of them failed).
\<close>

record research_ctx =
  c_sessionId :: string
  c_query :: string
  c_breadth :: int
  c_depth :: int
  c_startTime :: int

definition onProgress :: "research_ctx \<Rightarrow> InternalResearchProgress \<Rightarrow> api_state \<Rightarrow> api_state" where
  "onProgress ctx cb st =
     (let rp = researchProgress (c_sessionId ctx) cb;
          st1 = st\<lparr>store := updateSessionProgress (clock st) (c_sessionId ctx) rp (store st)\<rparr>
      in sendProgressUpdate (c_sessionId ctx) rp st1)"

definition research_then ::
  "research_ctx \<Rightarrow> string list \<Rightarrow> string list \<Rightarrow> string \<Rightarrow> api_state \<Rightarrow> api_state"
where
  "research_then ctx ls urls rep st =
     (let res = \<lparr> r_sessionId = c_sessionId ctx, r_query = c_query ctx, learnings = ls,
                  visitedUrls = urls, report = Some rep, timestamp = clock st,
                  duration = clock st - c_startTime ctx, success = True, r_error = None \<rparr>;
          st1 = st\<lparr>store := updateSessionResult (clock st) (c_sessionId ctx) res (store st)\<rparr>
      in sendProgressUpdate (c_sessionId ctx)
           (finalProgress (c_sessionId ctx) (c_depth ctx) (c_breadth ctx) ls) st1)"

definition research_catch :: "research_ctx \<Rightarrow> string \<Rightarrow> api_state \<Rightarrow> api_state" where
  "research_catch ctx errorMessage st =
     (let st1 = st\<lparr>store := setSessionError (clock st) (c_sessionId ctx) errorMessage (store st)\<rparr>
      in sendProgressUpdate (c_sessionId ctx)
           (errorProgress (c_sessionId ctx) (c_depth ctx) (c_breadth ctx) errorMessage) st1)"

text \<open>
  What can happen to the server while one research request is in flight: time passes, a
  response breaks, a subscriber opens or closes the progress stream of the session, the
  engine reports progress, and the request settles.
\<close>

datatype api_event =
    Tick nat
  | Break nat
  | Subscribe nat
  | Disconnect nat
  | OnProgress InternalResearchProgress
  | Resolved "string list" "string list" string
  | Rejected string

fun api_step :: "research_ctx \<Rightarrow> api_event \<Rightarrow> api_state \<Rightarrow> api_state" where
  "api_step ctx (Tick ms) st = st\<lparr>clock := clock st + int ms\<rparr>"
| "api_step ctx (Break res) st = st\<lparr>broken := insert res (broken st)\<rparr>"
| "api_step ctx (Subscribe res) st = progress_connect (c_sessionId ctx) res st"
| "api_step ctx (Disconnect res) st = progress_close (c_sessionId ctx) res st"
| "api_step ctx (OnProgress cb) st = onProgress ctx cb st"
| "api_step ctx (Resolved ls urls rep) st = research_then ctx ls urls rep st"
| "api_step ctx (Rejected errorMessage) st = research_catch ctx errorMessage st"

definition run :: "research_ctx \<Rightarrow> api_event list \<Rightarrow> api_state \<Rightarrow> api_state" where
  "run ctx evs st = foldl (\<lambda>s ev. api_step ctx ev s) st evs"

text \<open>The progress events a request passes to \<^verbatim>\<open>sendProgressUpdate\<close>, in order.\<close>

fun emitted :: "research_ctx \<Rightarrow> api_event \<Rightarrow> ResearchProgress list" where
  "emitted ctx (OnProgress cb) = [researchProgress (c_sessionId ctx) cb]"
| "emitted ctx (Resolved ls urls rep) =
     [finalProgress (c_sessionId ctx) (c_depth ctx) (c_breadth ctx) ls]"
| "emitted ctx (Rejected errorMessage) =
     [errorProgress (c_sessionId ctx) (c_depth ctx) (c_breadth ctx) errorMessage]"
| "emitted ctx _ = []"

definition published :: "research_ctx \<Rightarrow> api_event list \<Rightarrow> ResearchProgress list" where
  "published ctx evs = concat (map (emitted ctx) evs)"

definition initial_state :: api_state where
  "initial_state =
     \<lparr> store = Map.empty, sseClients = Map.empty, written = (\<lambda>res. []), broken = {},
       listening = {}, clock = 0 \<rparr>"

text \<open>
  The states a request passes through, one per event, and the status the store holds for
  a session.
\<close>

fun trace :: "research_ctx \<Rightarrow> api_event list \<Rightarrow> api_state \<Rightarrow> api_state list" where
  "trace ctx [] st = [st]"
| "trace ctx (ev # evs) st = st # trace ctx evs (api_step ctx ev st)"

definition status_of :: "string \<Rightarrow> api_state \<Rightarrow> session_status option" where
  "status_of sid st = map_option status (store st sid)"

fun terminal_status :: "api_event \<Rightarrow> session_status option" where
  "terminal_status (Resolved ls urls rep) = Some Completed"
| "terminal_status (Rejected errorMessage) = Some Error"
| "terminal_status _ = None"

text \<open>
  The clients registered for a session, and what it means for a response to be attached
  to the stream of a session: it is registered once and its \<^verbatim>\<open>write\<close> does not throw.
\<close>

definition clients_of :: "string \<Rightarrow> api_state \<Rightarrow> nat list" where
  "clients_of sid st = (case sseClients st sid of None \<Rightarrow> [] | Some cs \<Rightarrow> cs)"

definition attached :: "nat \<Rightarrow> string \<Rightarrow> api_state \<Rightarrow> bool" where
  "attached res sid st \<longleftrightarrow> count_list (clients_of sid st) res = 1 \<and> res \<notin> broken st"

text \<open>
  A response that has not yet subscribed to a live session: nothing has been written to
  it, it is not registered, its \<^verbatim>\<open>write\<close> does not throw, and the session is stored
  with \<open>latest\<close> as its stored progress and at least \<open>slack\<close> milliseconds to live.
\<close>

definition waiting ::
  "nat \<Rightarrow> string \<Rightarrow> ResearchProgress option \<Rightarrow> int \<Rightarrow> api_state \<Rightarrow> bool"
where
  "waiting res sid latest slack st \<longleftrightarrow>
     written st res = [] \<and> res \<notin> broken st \<and> res \<notin> set (clients_of sid st)
     \<and> (\<exists>s. store st sid = Some s \<and> clock st + slack \<le> expiresAt s
             \<and> progress s = latest)"

text \<open>Concrete inputs: a request context and a callback argument with given counters.\<close>

definition sampleCtx :: research_ctx where
  "sampleCtx =
     \<lparr> c_sessionId = ''s1'', c_query = ''q'', c_breadth = 2, c_depth = 1, c_startTime = 0 \<rparr>"

definition sampleCallback :: "int \<Rightarrow> int \<Rightarrow> InternalResearchProgress" where
  "sampleCallback completedQ totalQ =
     \<lparr> cb_currentDepth = 1, cb_totalDepth = 1, cb_currentBreadth = 2, cb_totalBreadth = 2,
       cb_currentQuery = None, cb_totalQueries = totalQ, cb_completedQueries = completedQ \<rparr>"

definition sampleQuery :: ResearchQuery where
  "sampleQuery =
     \<lparr> q_query = ''q'', q_breadth = 2, q_depth = 1, q_llmConfig = None,
       q_customGptId = None \<rparr>"

definition sampleResult :: ResearchResult where
  "sampleResult =
     \<lparr> r_sessionId = ''s1'', r_query = ''q'', learnings = [''fact''], visitedUrls = [],
       report = Some ''report'', timestamp = 5, duration = 5, success = True,
       r_error = None \<rparr>"

definition sampleBody :: research_body where
  "sampleBody =
     \<lparr> b_query = JStr ''q'', b_breadth = JNum 11, b_depth = JAbsent,
       b_llmConfig = LAbsent, b_customGptId = JAbsent \<rparr>"

definition sampleRequest :: research_request where
  "sampleRequest = \<lparr> h_origin = None, h_body_raises = False, h_body = sampleBody \<rparr>"

definition foreignRequest :: research_request where
  "foreignRequest =
     \<lparr> h_origin = Some ''http://elsewhere.example'', h_body_raises = False,
       h_body = sampleBody \<rparr>"

section \<open>Session store: frame and expiry\<close>

lemma ttl_fixed_reachable: "reachable st \<Longrightarrow> ttl_fixed st"
proof (induction rule: reachable.induct)
  case r_init
  show ?case by (simp add: ttl_fixed_def)
next
  case (r_create st now uid q b d)
  then show ?case by (auto simp: ttl_fixed_def createSession_def)
next
  case (r_get st now sid)
  then show ?case
    by (auto simp: ttl_fixed_def getSession_def split: option.splits if_splits)
next
  case (r_status st now sid s)
  then show ?case
    by (auto simp: ttl_fixed_def updateSessionStatus_def split: option.splits if_splits)
next
  case (r_progress st now sid p)
  then show ?case
    by (auto simp: ttl_fixed_def updateSessionProgress_def split: option.splits if_splits)
next
  case (r_result st now sid r)
  then show ?case
    by (auto simp: ttl_fixed_def updateSessionResult_def split: option.splits if_splits)
next
  case (r_error st now sid err)
  then show ?case
    by (auto simp: ttl_fixed_def setSessionError_def split: option.splits if_splits)
next
  case (r_delete st sid)
  then show ?case
    by (auto simp: ttl_fixed_def deleteSession_def split: if_splits)
next
  case (r_cleanup st now)
  then show ?case
    by (auto simp: ttl_fixed_def cleanupExpiredSessions_def split: option.splits if_splits)
qed

text \<open>
  C10. For a session id that is not in the store, each of \<^verbatim>\<open>updateSessionStatus\<close>,
  \<^verbatim>\<open>updateSessionProgress\<close>, \<^verbatim>\<open>updateSessionResult\<close> and \<^verbatim>\<open>setSessionError\<close>
  returns the store it was given. The four methods have no raising path: the guard
  \<^verbatim>\<open>if (session)\<close> covers their only property accesses, so each is a total function from
  store to store.
\<close>

theorem update_unknown_session_noop:
  assumes "sessions sid = None"
  shows "updateSessionStatus now sid s sessions = sessions
       \<and> updateSessionProgress now sid p sessions = sessions
       \<and> updateSessionResult now sid r sessions = sessions
       \<and> setSessionError now sid err sessions = sessions"
  using assms
  by (simp add: updateSessionStatus_def updateSessionProgress_def
        updateSessionResult_def setSessionError_def)

theorem update_unknown_session_noop_witness:
  "(Map.empty :: session_store) ''s1'' = None
   \<and> updateSessionStatus 7 ''s1'' Running Map.empty = Map.empty
   \<and> updateSessionProgress 7 ''s1''
        \<lparr> p_sessionId = ''s1'', currentDepth = 1, totalDepth = 1, currentBreadth = 2,
          totalBreadth = 2, currentQuery = None, totalQueries = 2, completedQueries = 1,
          p_status = Running, p_progress = 50, message = None \<rparr> Map.empty = Map.empty
   \<and> updateSessionResult 7 ''s1''
        \<lparr> r_sessionId = ''s1'', r_query = ''q'', learnings = [], visitedUrls = [],
          report = Some ''done'', timestamp = 7, duration = 3, success = True,
          r_error = None \<rparr> Map.empty = Map.empty
   \<and> setSessionError 7 ''s1'' ''boom'' Map.empty = Map.empty"
  using update_unknown_session_noop [of Map.empty "''s1''" 7 Running _ _ "''boom''"]
  by simp


text \<open>
  C8. An entry created more than 24 hours before the clock reading \<open>now\<close> is not
  returned by \<^verbatim>\<open>getSession\<close>: the answer is \<^verbatim>\<open>null\<close> and the entry is gone from
  the store, which is the answer and the store that the same call gives when the id was
  never there; and the sweep \<^verbatim>\<open>cleanupExpiredSessions\<close> removes the entry. The store
  is any store the session manager can reach, where every entry expires 24 hours after
  its creation.
\<close>

theorem expired_session_not_found:
  assumes "reachable st" and "st sid = Some session"
    and "createdAt session + SESSION_EXPIRY_MS < now"
  shows "getSession now sid st = (None, st(sid := None))
       \<and> getSession now sid (st(sid := None)) = (None, st(sid := None))
       \<and> cleanupExpiredSessions now st sid = None"
proof -
  from assms(1) have "ttl_fixed st" by (rule ttl_fixed_reachable)
  with assms(2) have "expiresAt session = createdAt session + SESSION_EXPIRY_MS"
    by (simp add: ttl_fixed_def)
  with assms(3) have expired: "now > expiresAt session" by simp
  with assms(2) show ?thesis
    by (simp add: getSession_def cleanupExpiredSessions_def)
qed

theorem expired_session_not_found_witness:
  "reachable (snd (createSession 0 ''s1'' ''q'' 2 1 Map.empty))
   \<and> snd (createSession 0 ''s1'' ''q'' 2 1 Map.empty) ''s1''
       = Some \<lparr> sessionId = ''s1'', query = ''q'', breadth = 2, depth = 1, status = Pending,
                 progress = None, result = None, createdAt = 0, updatedAt = 0,
                 expiresAt = 86400000 \<rparr>
   \<and> (0::int) + SESSION_EXPIRY_MS < 86400001
   \<and> fst (getSession 86400001 ''s1'' (snd (createSession 0 ''s1'' ''q'' 2 1 Map.empty))) = None
   \<and> fst (getSession 86400001 ''s1'' Map.empty) = None
   \<and> cleanupExpiredSessions 86400001 (snd (createSession 0 ''s1'' ''q'' 2 1 Map.empty)) ''s1''
       = None"
proof -
  let ?st = "snd (createSession 0 ''s1'' ''q'' 2 1 Map.empty)"
  let ?session = "\<lparr> sessionId = ''s1'', query = ''q'', breadth = 2, depth = 1,
                 status = Pending, progress = None, result = None, createdAt = 0,
                 updatedAt = 0, expiresAt = 86400000 \<rparr>"
  have r: "reachable ?st" by (rule r_create [OF r_init])
  have s: "?st ''s1'' = Some ?session"
    by (simp add: createSession_def SESSION_EXPIRY_MS_def)
  have e: "createdAt ?session + SESSION_EXPIRY_MS < 86400001"
    by (simp add: SESSION_EXPIRY_MS_def)
  note t = expired_session_not_found [OF r s e]
  from t have "fst (getSession 86400001 ''s1'' ?st) = None" by simp
  moreover from t have "cleanupExpiredSessions 86400001 ?st ''s1'' = None" by simp
  moreover have "fst (getSession 86400001 ''s1'' Map.empty) = None"
    by (simp add: getSession_def)
  ultimately show ?thesis using r s e by simp
qed

section \<open>Prompt budgeter: termination, floor and idempotence\<close>

lemma trimStep_Recurse_shorter:
  assumes "nonexpanding splitText"
    and "trimStep encode splitText prompt contextSize = Recurse p"
  shows "length p < length prompt"
proof -
  let ?len = "int (length (encode prompt))"
  let ?chunkSize = "int (length prompt) - (?len - contextSize) * 3"
  let ?trimmed = "firstChunk (splitText (nat ?chunkSize) prompt)"
  from assms(2) have over: "\<not> ?len \<le> contextSize" and floor: "\<not> ?chunkSize < MinChunkSize"
    by (auto simp: trimStep_def Let_def split: if_splits)
  from assms(1) have le: "length ?trimmed \<le> length prompt"
    by (simp add: nonexpanding_def)
  show ?thesis
  proof (cases "length ?trimmed = length prompt")
    case True
    with assms(2) over floor have "p = take (nat ?chunkSize) prompt"
      by (auto simp: trimStep_def Let_def split: if_splits)
    moreover have "nat ?chunkSize < length prompt"
    proof -
      from floor have nonneg: "0 \<le> ?chunkSize" by (simp add: MinChunkSize_def)
      from over have "?chunkSize < int (length prompt)" by simp
      with nonneg show ?thesis by (simp only: nat_less_iff)
    qed
    ultimately show ?thesis by simp
  next
    case False
    with assms(2) over floor have "p = ?trimmed"
      by (auto simp: trimStep_def Let_def split: if_splits)
    with le False show ?thesis by simp
  qed
qed

lemma trimStep_Return_bounded:
  assumes "trimStep encode splitText prompt contextSize = Return r"
  shows "(int (length (encode r)) \<le> contextSize \<or> length r \<le> nat MinChunkSize)
       \<and> length r \<le> length prompt"
  using assms
  by (auto simp: trimStep_def Let_def MinChunkSize_def split: if_splits)

lemma trimPrompt_returns:
  assumes "nonexpanding splitText"
  shows "\<exists>r. trimPrompt encode splitText prompt contextSize = Some r
           \<and> (int (length (encode r)) \<le> contextSize \<or> length r \<le> nat MinChunkSize)
           \<and> length r \<le> length prompt"
proof (induction prompt rule: measure_induct_rule[where f = length])
  case (less prompt)
  show ?case
  proof (cases "trimStep encode splitText prompt contextSize")
    case (Return r)
    then show ?thesis
      using trimStep_Return_bounded [OF Return]
      by (simp add: trimPrompt.simps [of encode splitText prompt])
  next
    case (Recurse p)
    from trimStep_Recurse_shorter [OF assms Recurse]
    have shorter: "length p < length prompt" .
    from less.IH [OF shorter] obtain r where
      "trimPrompt encode splitText p contextSize = Some r"
      "int (length (encode r)) \<le> contextSize \<or> length r \<le> nat MinChunkSize"
      "length r \<le> length p"
      by blast
    with Recurse shorter show ?thesis
      by (simp add: trimPrompt.simps [of encode splitText prompt])
  qed
qed

lemma trimPrompt_fixed_point:
  assumes "int (length (encode r)) \<le> contextSize \<or> length r \<le> nat MinChunkSize"
  shows "trimPrompt encode splitText r contextSize = Some r"
proof -
  have "trimStep encode splitText r contextSize = Return r"
    using assms by (auto simp: trimStep_def Let_def MinChunkSize_def)
  then show ?thesis
    by (simp add: trimPrompt.simps [of encode splitText r])
qed

lemma firstChunk_paragraphsFrom:
  "length (firstChunk (paragraphsFrom par cs)) \<le> length par + length cs"
  by (induction par cs rule: paragraphsFrom.induct) (auto simp: firstChunk_def)

lemma nonexpanding_paragraphSplitter: "nonexpanding paragraphSplitter"
  using firstChunk_paragraphsFrom [of "[]"]
  by (simp add: nonexpanding_def paragraphSplitter_def)

lemma nonexpanding_identitySplitter: "nonexpanding identitySplitter"
  by (simp add: nonexpanding_def identitySplitter_def firstChunk_def)

lemma samplePrompt_paragraphs:
  "trimPrompt wordTokens paragraphSplitter samplePrompt 1 = Some ''Hello world.''"
  by code_simp

lemma samplePrompt_hard_cut:
  "trimStep wordTokens identitySplitter samplePrompt 1 = Recurse (take 148 samplePrompt)"
  by code_simp

text \<open>
  C3. With a splitter whose first chunk is never longer than its input, every tail call
  of \<^verbatim>\<open>trimPrompt\<close> is on a strictly shorter prompt; when the first chunk has the
  length of the prompt, the call is on the hard cut \<^verbatim>\<open>prompt.slice(0, chunkSize)\<close>;
  and \<^verbatim>\<open>trimPrompt\<close> returns, for every prompt and every budget, a text that is
  within the budget or no longer than the floor of 140 characters.
\<close>

theorem trimPrompt_terminates:
  assumes "nonexpanding splitText"
  shows "(\<exists>r. trimPrompt encode splitText prompt contextSize = Some r
             \<and> (int (length (encode r)) \<le> contextSize \<or> length r \<le> 140))
       \<and> (\<forall>p. trimStep encode splitText prompt contextSize = Recurse p
              \<longrightarrow> length p < length prompt)
       \<and> (\<forall>p. trimStep encode splitText prompt contextSize = Recurse p
                \<and> length (firstChunk (splitText
                     (nat (int (length prompt)
                            - (int (length (encode prompt)) - contextSize) * 3)) prompt))
                   = length prompt
              \<longrightarrow> p = take (nat (int (length prompt)
                            - (int (length (encode prompt)) - contextSize) * 3)) prompt)"
proof (intro conjI allI impI)
  show "\<exists>r. trimPrompt encode splitText prompt contextSize = Some r
             \<and> (int (length (encode r)) \<le> contextSize \<or> length r \<le> 140)"
    using trimPrompt_returns [OF assms, of encode prompt contextSize]
    by (auto simp: MinChunkSize_def)
next
  fix p
  assume "trimStep encode splitText prompt contextSize = Recurse p"
  then show "length p < length prompt"
    by (rule trimStep_Recurse_shorter [OF assms])
next
  fix p
  let ?chunkSize = "int (length prompt) - (int (length (encode prompt)) - contextSize) * 3"
  assume "trimStep encode splitText prompt contextSize = Recurse p
          \<and> length (firstChunk (splitText (nat ?chunkSize) prompt)) = length prompt"
  then show "p = take (nat ?chunkSize) prompt"
    by (auto simp: trimStep_def Let_def split: if_splits)
qed

theorem trimPrompt_terminates_witness:
  "nonexpanding identitySplitter
   \<and> trimStep wordTokens identitySplitter samplePrompt 1 = Recurse (take 148 samplePrompt)
   \<and> length (firstChunk (identitySplitter 148 samplePrompt)) = length samplePrompt
   \<and> length (take 148 samplePrompt) < length samplePrompt
   \<and> (\<exists>r. trimPrompt wordTokens identitySplitter samplePrompt 1 = Some r)"
proof -
  note t = trimPrompt_terminates [OF nonexpanding_identitySplitter,
      of wordTokens samplePrompt 1]
  have same: "length (firstChunk (identitySplitter 148 samplePrompt)) = length samplePrompt"
    by (simp add: identitySplitter_def firstChunk_def)
  from t have "\<exists>r. trimPrompt wordTokens identitySplitter samplePrompt 1 = Some r"
    by blast
  moreover from t samplePrompt_hard_cut
  have "length (take 148 samplePrompt) < length samplePrompt"
    by blast
  ultimately show ?thesis
    using nonexpanding_identitySplitter samplePrompt_hard_cut same by blast
qed

text \<open>
  C2. \<^verbatim>\<open>trimPrompt\<close> is idempotent: it returns a value, and applied to that value with
  the same budget it returns it unchanged. (Whatever it returns is within the budget or
  at most 140 characters long, and a text of either kind is returned as it is.)
\<close>

theorem trimPrompt_idempotent:
  assumes "nonexpanding splitText"
  shows "\<exists>r. trimPrompt encode splitText prompt contextSize = Some r
           \<and> trimPrompt encode splitText r contextSize = Some r"
proof -
  from trimPrompt_returns [OF assms, of encode prompt contextSize] obtain r where
    r: "trimPrompt encode splitText prompt contextSize = Some r"
    and b: "int (length (encode r)) \<le> contextSize \<or> length r \<le> nat MinChunkSize"
    by blast
  from b have "trimPrompt encode splitText r contextSize = Some r"
    by (rule trimPrompt_fixed_point)
  with r show ?thesis by blast
qed

theorem trimPrompt_idempotent_witness:
  "nonexpanding paragraphSplitter
   \<and> trimPrompt wordTokens paragraphSplitter samplePrompt 1 = Some ''Hello world.''
   \<and> trimPrompt wordTokens paragraphSplitter ''Hello world.'' 1 = Some ''Hello world.''"
proof -
  from trimPrompt_idempotent [OF nonexpanding_paragraphSplitter,
      of wordTokens samplePrompt 1]
  have "trimPrompt wordTokens paragraphSplitter ''Hello world.'' 1 = Some ''Hello world.''"
    by (simp add: samplePrompt_paragraphs)
  then show ?thesis
    using nonexpanding_paragraphSplitter samplePrompt_paragraphs by blast
qed

lemma trimPrompt_short_first_chunk:
  assumes over: "contextSize < int (length (encode prompt))"
    and room: "MinChunkSize
                 \<le> int (length prompt) - (int (length (encode prompt)) - contextSize) * 3"
    and chunk: "firstChunk (splitText
                  (nat (int (length prompt) - (int (length (encode prompt)) - contextSize) * 3))
                  prompt) = c"
    and short: "length c < 140" "c \<noteq> []"
    and dense: "contextSize < int (length (encode c))"
  shows "trimPrompt encode splitText prompt contextSize = Some c"
proof -
  from over room have long: "140 < length prompt"
    by (simp add: MinChunkSize_def)
  with short have ne: "prompt \<noteq> []" "length c \<noteq> length prompt" by auto
  have "trimStep encode splitText prompt contextSize = Recurse c"
    using over room chunk ne by (simp add: trimStep_def Let_def)
  moreover have "trimStep encode splitText c contextSize = Return c"
    using short dense by (auto simp: trimStep_def Let_def MinChunkSize_def)
  ultimately show ?thesis
    by (simp add: trimPrompt.simps [of encode splitText prompt]
          trimPrompt.simps [of encode splitText c])
qed

lemma longPrompt_first_paragraph:
  "firstChunk (paragraphSplitter n longPrompt) = ''Hello world.''"
  by (simp add: paragraphSplitter_def longPrompt_def firstChunk_def)

lemma longPrompt_any_tokenizer:
  assumes "1 < length (encode ''Hello world.'')"
    and "1 < length (encode longPrompt)" and "length (encode longPrompt) \<le> 159"
  shows "trimPrompt encode paragraphSplitter longPrompt 1 = Some ''Hello world.''"
proof (rule trimPrompt_short_first_chunk)
  show "1 < int (length (encode longPrompt))" using assms(2) by simp
  have "length longPrompt = 614" by (simp add: longPrompt_def)
  with assms(3) show "MinChunkSize
      \<le> int (length longPrompt) - (int (length (encode longPrompt)) - 1) * 3"
    by (simp add: MinChunkSize_def)
  show "firstChunk (paragraphSplitter
      (nat (int (length longPrompt) - (int (length (encode longPrompt)) - 1) * 3)) longPrompt)
      = ''Hello world.''"
    by (rule longPrompt_first_paragraph)
  show "length ''Hello world.'' < 140" by simp
  show "''Hello world.'' \<noteq> []" by simp
  show "1 < int (length (encode ''Hello world.''))" using assms(1) by simp
qed

lemma length_quadTokens: "length (quadTokens s) = (length s + 3) div 4"
  by (simp add: quadTokens_def)

lemma wordsFrom_letters:
  assumes "\<forall>c \<in> set cs. \<not> isSpace c"
  shows "wordsFrom w cs = (if w @ cs = [] then [] else [w @ cs])"
  using assms by (induction cs arbitrary: w) auto

lemma length_longPrompt: "length longPrompt = 614"
  by (simp add: longPrompt_def)

lemma wordTokens_longPrompt: "length (wordTokens longPrompt) = 3"
proof -
  have "wordsFrom [] (replicate 600 CHR ''a'')
          = (if [] @ replicate 600 CHR ''a'' = [] then [] else [[] @ replicate 600 CHR ''a''])"
    by (rule wordsFrom_letters) (simp add: isSpace_def)
  then have "length (wordsFrom [] (replicate 600 CHR ''a'')) = 1" by simp
  then show ?thesis
    by (simp add: wordTokens_def longPrompt_def isSpace_def)
qed

lemma tokens_hello:
  "length (wordTokens ''Hello world.'') = 2 \<and> length (quadTokens ''Hello world.'') = 3"
  by (simp add: wordTokens_def isSpace_def length_quadTokens)

text \<open>
  C1, as stated: the result is within the budget, or it is the 140-character prefix of
  the input. It fails where the floor is reached on a chunk that the splitter cut shorter
  than 140 characters. \<open>longPrompt\<close> is a paragraph of 12 characters followed by a
  paragraph of 600. With a budget of one token the first call finds a chunk size of at
  least 140 and splits; the second call, on the first paragraph, finds the chunk size
  below the floor and returns the paragraph, which is over the budget and is not the
  first 140 characters of the input. By \<open>longPrompt_any_tokenizer\<close> the run is the same
  for every tokenizer that gives the first paragraph more than one token and the whole
  prompt at most 159 tokens; it is stated here for one token per word (3 tokens) and
  for one token per four characters (154 tokens).
\<close>

theorem trimPrompt_floor_prefix_counterexample:
  "trimPrompt wordTokens paragraphSplitter longPrompt 1 = Some ''Hello world.''
   \<and> trimPrompt quadTokens paragraphSplitter longPrompt 1 = Some ''Hello world.''
   \<and> \<not> int (length (wordTokens ''Hello world.'')) \<le> 1
   \<and> \<not> int (length (quadTokens ''Hello world.'')) \<le> 1
   \<and> ''Hello world.'' \<noteq> take 140 longPrompt"
proof -
  have "trimPrompt wordTokens paragraphSplitter longPrompt 1 = Some ''Hello world.''"
    by (rule longPrompt_any_tokenizer) (simp_all add: wordTokens_longPrompt tokens_hello)
  moreover have "trimPrompt quadTokens paragraphSplitter longPrompt 1 = Some ''Hello world.''"
    by (rule longPrompt_any_tokenizer)
       (simp_all add: length_quadTokens length_longPrompt tokens_hello)
  moreover have "''Hello world.'' \<noteq> take 140 longPrompt"
  proof
    assume "''Hello world.'' = take 140 longPrompt"
    then have "length ''Hello world.'' = length (take 140 longPrompt)" by (rule arg_cong)
    then show False by (simp add: length_longPrompt)
  qed
  ultimately show ?thesis by (simp add: tokens_hello)
qed

text \<open>
  C1, amended. With a splitter whose first chunk is never longer than its input,
  \<^verbatim>\<open>trimPrompt\<close> returns, for every text and budget, a string that is within the
  budget or at most 140 characters long; when the first call already finds the reduced
  chunk size below the floor, that string is the 140-character prefix
  \<^verbatim>\<open>prompt.slice(0, 140)\<close> of the input.
\<close>

theorem trimPrompt_budget_or_floor:
  assumes "nonexpanding splitText"
  shows "\<exists>r. trimPrompt encode splitText prompt contextSize = Some r
           \<and> (int (length (encode r)) \<le> contextSize \<or> length r \<le> 140)
           \<and> (contextSize < int (length (encode prompt))
                \<and> int (length prompt) - (int (length (encode prompt)) - contextSize) * 3
                    < MinChunkSize
               \<longrightarrow> r = take 140 prompt)"
proof -
  from trimPrompt_returns [OF assms, of encode prompt contextSize] obtain r where
    r: "trimPrompt encode splitText prompt contextSize = Some r"
    and b: "int (length (encode r)) \<le> contextSize \<or> length r \<le> nat MinChunkSize"
    by blast
  have "r = take 140 prompt"
    if "contextSize < int (length (encode prompt))
        \<and> int (length prompt) - (int (length (encode prompt)) - contextSize) * 3
            < MinChunkSize"
  proof -
    from that have "trimStep encode splitText prompt contextSize = Return (take 140 prompt)"
      by (auto simp: trimStep_def Let_def MinChunkSize_def)
    with r show ?thesis
      by (simp add: trimPrompt.simps [of encode splitText prompt])
  qed
  with r b show ?thesis by (auto simp: MinChunkSize_def)
qed

theorem trimPrompt_budget_or_floor_witness:
  "nonexpanding paragraphSplitter
   \<and> (1 < int (length (wordTokens ''Hello world.''))
      \<and> int (length ''Hello world.'') - (int (length (wordTokens ''Hello world.'')) - 1) * 3
          < MinChunkSize)
   \<and> trimPrompt wordTokens paragraphSplitter ''Hello world.'' 1
       = Some (take 140 ''Hello world.'')
   \<and> length (take 140 ''Hello world.'') \<le> 140"
proof -
  have floor: "1 < int (length (wordTokens ''Hello world.''))
      \<and> int (length ''Hello world.'') - (int (length (wordTokens ''Hello world.'')) - 1) * 3
          < MinChunkSize"
    by code_simp
  from trimPrompt_budget_or_floor [OF nonexpanding_paragraphSplitter,
      of wordTokens "''Hello world.''" 1] floor
  have "trimPrompt wordTokens paragraphSplitter ''Hello world.'' 1
       = Some (take 140 ''Hello world.'')"
    by blast
  with floor show ?thesis
    using nonexpanding_paragraphSplitter by simp
qed

section \<open>Request validation\<close>

lemma researchSchema_rejects:
  assumes "(b_breadth body = JNum x \<and> (x < 2 \<or> 10 < x))
         \<or> (b_depth body = JNum y \<and> (y < 1 \<or> 5 < y))
         \<or> (b_query body = JStr s \<and> (s = [] \<or> 1000 < length s))"
  shows "researchSchema body = None"
  using assms
  by (auto simp: researchSchema_def z_string_min_max_def z_int_min_max_default_def
        split: Option.bind_splits jval.splits)

text \<open>
  C9, as stated: every request with a breadth outside 2..10, a depth outside 1..5 or a
  query that is empty or longer than 1000 characters is answered with the validation
  error. It fails for a request that does not reach the validator: with breadth 11, a
  caller over the research rate limit is answered 429 by the limiter, and a request from
  an origin that is not allowed is answered 500 by the error handler.
\<close>

theorem invalid_request_not_validated_counterexample:
  "b_breadth (h_body sampleRequest) = JNum 11
   \<and> fst (post_research None False True ''u1'' sampleRequest initial_state) = TooManyRequests
   \<and> fst (post_research None False True ''u1'' sampleRequest initial_state) \<noteq> ValidationError
   \<and> b_breadth (h_body foreignRequest) = JNum 11
   \<and> fst (post_research None False False ''u1'' foreignRequest initial_state)
       = InternalServerError
   \<and> fst (post_research None False False ''u1'' foreignRequest initial_state)
       \<noteq> ValidationError"
  by (simp add: post_research_def sampleRequest_def foreignRequest_def sampleBody_def
        corsOptions_origin_def allowedOrigins_def)

text \<open>
  C9, amended. A request with a breadth outside 2..10, a depth outside 1..5 or a query
  that is empty or longer than 1000 characters is rejected in the synchronous part of
  the route, before any session is created and with the server state (the session store
  in it) unchanged. The answer is the validation error whenever the request reaches the
  validator; before that, a refused origin or an unreadable body is answered 500, and
  otherwise a caller over a rate limit is answered 429.
\<close>

theorem invalid_research_request_rejected:
  assumes "(b_breadth (h_body req) = JNum x \<and> (x < 2 \<or> 10 < x))
         \<or> (b_depth (h_body req) = JNum y \<and> (y < 1 \<or> 5 < y))
         \<or> (b_query (h_body req) = JStr s \<and> (s = [] \<or> 1000 < length s))"
  shows "snd (post_research frontendUrl limited researchLimited uid req st) = st
       \<and> (\<forall>sid stat. fst (post_research frontendUrl limited researchLimited uid req st)
              \<noteq> Accepted sid stat)
       \<and> (corsOptions_origin frontendUrl (h_origin req) \<and> \<not> h_body_raises req
            \<and> \<not> limited \<and> \<not> researchLimited
            \<longrightarrow> fst (post_research frontendUrl limited researchLimited uid req st)
                  = ValidationError)
       \<and> (corsOptions_origin frontendUrl (h_origin req) \<and> \<not> h_body_raises req
            \<and> (limited \<or> researchLimited)
            \<longrightarrow> fst (post_research frontendUrl limited researchLimited uid req st)
                  = TooManyRequests)
       \<and> (\<not> corsOptions_origin frontendUrl (h_origin req) \<or> h_body_raises req
            \<longrightarrow> fst (post_research frontendUrl limited researchLimited uid req st)
                  = InternalServerError)"
  using researchSchema_rejects [OF assms]
  by (auto simp: post_research_def)

theorem invalid_research_request_rejected_witness:
  "b_breadth (h_body sampleRequest) = JNum 11 \<and> ((11::rat) < 2 \<or> (10::rat) < 11)
   \<and> corsOptions_origin None (h_origin sampleRequest) \<and> \<not> h_body_raises sampleRequest
   \<and> snd (post_research None False False ''u1'' sampleRequest initial_state) = initial_state
   \<and> fst (post_research None False False ''u1'' sampleRequest initial_state) = ValidationError
   \<and> fst (post_research None False True ''u1'' sampleRequest initial_state) = TooManyRequests
   \<and> b_breadth (h_body foreignRequest) = JNum 11
   \<and> \<not> corsOptions_origin None (h_origin foreignRequest)
   \<and> fst (post_research None False False ''u1'' foreignRequest initial_state)
       = InternalServerError"
proof -
  have b: "b_breadth (h_body sampleRequest) = JNum 11 \<and> ((11::rat) < 2 \<or> (10::rat) < 11)"
    by (simp add: sampleRequest_def sampleBody_def)
  then have h: "(b_breadth (h_body sampleRequest) = JNum 11 \<and> ((11::rat) < 2 \<or> (10::rat) < 11))
         \<or> (b_depth (h_body sampleRequest) = JNum 0 \<and> ((0::rat) < 1 \<or> (5::rat) < 0))
         \<or> (b_query (h_body sampleRequest) = JStr []
              \<and> ([] = ([]::string) \<or> 1000 < length ([]::string)))"
    by (rule disjI1)
  have b': "b_breadth (h_body foreignRequest) = JNum 11 \<and> ((11::rat) < 2 \<or> (10::rat) < 11)"
    by (simp add: foreignRequest_def sampleBody_def)
  then have h': "(b_breadth (h_body foreignRequest) = JNum 11
              \<and> ((11::rat) < 2 \<or> (10::rat) < 11))
         \<or> (b_depth (h_body foreignRequest) = JNum 0 \<and> ((0::rat) < 1 \<or> (5::rat) < 0))
         \<or> (b_query (h_body foreignRequest) = JStr []
              \<and> ([] = ([]::string) \<or> 1000 < length ([]::string)))"
    by (rule disjI1)
  have c: "corsOptions_origin None (h_origin sampleRequest) \<and> \<not> h_body_raises sampleRequest"
    by (simp add: sampleRequest_def corsOptions_origin_def)
  have c': "\<not> corsOptions_origin None (h_origin foreignRequest)"
    by (simp add: foreignRequest_def corsOptions_origin_def allowedOrigins_def)
  from invalid_research_request_rejected [OF h, of None False False "''u1''" initial_state] c
  have "snd (post_research None False False ''u1'' sampleRequest initial_state) = initial_state
      \<and> fst (post_research None False False ''u1'' sampleRequest initial_state)
          = ValidationError"
    by blast
  moreover
  from invalid_research_request_rejected [OF h, of None False True "''u1''" initial_state] c
  have "fst (post_research None False True ''u1'' sampleRequest initial_state)
          = TooManyRequests"
    by blast
  moreover
  from invalid_research_request_rejected [OF h', of None False False "''u1''" initial_state] c'
  have "fst (post_research None False False ''u1'' foreignRequest initial_state)
          = InternalServerError"
    by blast
  ultimately show ?thesis using b b' c c' by blast
qed

section \<open>Session status over a request\<close>

lemma foldl_write_frame:
  "store (foldl (\<lambda>s c. if c \<in> B then s else res_write c p s) st cs) = store st
   \<and> sseClients (foldl (\<lambda>s c. if c \<in> B then s else res_write c p s) st cs) = sseClients st
   \<and> broken (foldl (\<lambda>s c. if c \<in> B then s else res_write c p s) st cs) = broken st
   \<and> clock (foldl (\<lambda>s c. if c \<in> B then s else res_write c p s) st cs) = clock st"
  by (induction cs arbitrary: st) (simp_all add: res_write_def)

lemma foldl_write_written:
  "written (foldl (\<lambda>s c. if c \<in> B then s else res_write c p s) st cs) res
     = written st res @ (if res \<in> B then [] else replicate (count_list cs res) p)"
proof (induction cs arbitrary: st)
  case Nil
  show ?case by simp
next
  case (Cons c cs)
  show ?case
    by (simp add: Cons.IH res_write_def replicate_app_Cons_same)
qed

lemma sendProgressUpdate_frame:
  "store (sendProgressUpdate sid p st) = store st
   \<and> broken (sendProgressUpdate sid p st) = broken st
   \<and> clock (sendProgressUpdate sid p st) = clock st"
  by (simp add: sendProgressUpdate_def Let_def foldl_write_frame split: option.splits)

lemma status_of_onProgress:
  "status_of sid (onProgress ctx cb st) = status_of sid st"
  by (simp add: onProgress_def Let_def sendProgressUpdate_frame status_of_def
        updateSessionProgress_def split: option.splits)

lemma status_of_terminal:
  assumes "terminal_status t = Some ts" and "status_of (c_sessionId ctx) st \<noteq> None"
  shows "status_of (c_sessionId ctx) (api_step ctx t st) = Some ts"
  using assms
  by (cases t)
     (auto simp: research_then_def research_catch_def Let_def sendProgressUpdate_frame
        status_of_def updateSessionResult_def setSessionError_def split: option.splits)

lemma trace_progress_statuses:
  assumes "terminal_status t = Some ts"
    and "status_of (c_sessionId ctx) st = Some Running"
  shows "map (status_of (c_sessionId ctx)) (trace ctx (map OnProgress cbs @ [t]) st)
           = replicate (Suc (length cbs)) (Some Running) @ [Some ts]"
  using assms(2)
proof (induction cbs arbitrary: st)
  case Nil
  with assms(1) show ?case by (simp add: status_of_terminal)
next
  case (Cons cb cbs)
  from Cons.prems have "status_of (c_sessionId ctx) (onProgress ctx cb st) = Some Running"
    by (simp add: status_of_onProgress)
  from Cons.IH [OF this] Cons.prems show ?case by simp
qed

lemma status_of_research_handler:
  "status_of uid (snd (research_handler uid q st)) = Some Running"
  by (simp add: research_handler_def createSession_def updateSessionStatus_def status_of_def)

text \<open>
  C7, as stated: once a session is terminal, no store operation changes its status or
  result. The store has no such guard: on a completed session, \<^verbatim>\<open>setSessionError\<close>
  sets the status to error and replaces the result, and \<^verbatim>\<open>updateSessionStatus\<close> sets
  it back to pending.
\<close>

theorem terminal_session_overwritten_counterexample:
  "map_option status
     (updateSessionResult 5 ''s1'' sampleResult
        (snd (createSession 0 ''s1'' ''q'' 2 1 Map.empty)) ''s1'') = Some Completed
   \<and> map_option status
     (setSessionError 6 ''s1'' ''boom''
        (updateSessionResult 5 ''s1'' sampleResult
           (snd (createSession 0 ''s1'' ''q'' 2 1 Map.empty))) ''s1'') = Some Error
   \<and> map_option result
     (setSessionError 6 ''s1'' ''boom''
        (updateSessionResult 5 ''s1'' sampleResult
           (snd (createSession 0 ''s1'' ''q'' 2 1 Map.empty))) ''s1'')
     \<noteq> Some (Some sampleResult)
   \<and> map_option status
     (updateSessionStatus 7 ''s1'' Pending
        (updateSessionResult 5 ''s1'' sampleResult
           (snd (createSession 0 ''s1'' ''q'' 2 1 Map.empty))) ''s1'') = Some Pending"
  by (simp add: createSession_def updateSessionResult_def setSessionError_def
        updateSessionStatus_def sampleResult_def)

text \<open>
  C7, amended. The store does not guard the order of statuses; what holds is this.
  \<^verbatim>\<open>updateSessionProgress\<close> changes the status and the result of no session, and
  \<^verbatim>\<open>updateSessionStatus\<close>, \<^verbatim>\<open>updateSessionResult\<close> and \<^verbatim>\<open>setSessionError\<close> leave every
  session other than the one they name as it is. A session is created pending, and the
  calls the \<^verbatim>\<open>POST /research\<close> handler makes for it take its status through running
  (when the handler returns and after every progress callback) to exactly one terminal
  status, completed or error, set by the handler's last call.
\<close>

theorem status_order_by_handler:
  "(map_option status (updateSessionProgress now sid p sessions sid')
        = map_option status (sessions sid')
      \<and> map_option result (updateSessionProgress now sid p sessions sid')
        = map_option result (sessions sid'))
   \<and> (sid' \<noteq> sid \<longrightarrow>
         updateSessionStatus now sid s sessions sid' = sessions sid'
       \<and> updateSessionResult now sid r sessions sid' = sessions sid'
       \<and> setSessionError now sid err sessions sid' = sessions sid')
   \<and> map_option status (snd (createSession now uid qq b d sessions) uid) = Some Pending
   \<and> (c_sessionId ctx = uid \<and> terminal_status t = Some ts \<longrightarrow>
         map (status_of uid)
            (trace ctx (map OnProgress cbs @ [t]) (snd (research_handler uid q st)))
         = replicate (Suc (length cbs)) (Some Running) @ [Some ts])"
proof (intro conjI impI)
  show "map_option status (updateSessionProgress now sid p sessions sid')
        = map_option status (sessions sid')"
    by (simp add: updateSessionProgress_def split: option.splits)
  show "map_option result (updateSessionProgress now sid p sessions sid')
        = map_option result (sessions sid')"
    by (simp add: updateSessionProgress_def split: option.splits)
  show "map_option status (snd (createSession now uid qq b d sessions) uid) = Some Pending"
    by (simp add: createSession_def)
next
  assume "sid' \<noteq> sid"
  then show "updateSessionStatus now sid s sessions sid' = sessions sid'"
    and "updateSessionResult now sid r sessions sid' = sessions sid'"
    and "setSessionError now sid err sessions sid' = sessions sid'"
    by (simp_all add: updateSessionStatus_def updateSessionResult_def setSessionError_def
          split: option.splits)
next
  assume a: "c_sessionId ctx = uid \<and> terminal_status t = Some ts"
  then have "status_of (c_sessionId ctx) (snd (research_handler uid q st)) = Some Running"
    by (simp add: status_of_research_handler)
  with a trace_progress_statuses [of t ts ctx "snd (research_handler uid q st)" cbs]
  show "map (status_of uid)
            (trace ctx (map OnProgress cbs @ [t]) (snd (research_handler uid q st)))
         = replicate (Suc (length cbs)) (Some Running) @ [Some ts]"
    by simp
qed

theorem status_order_by_handler_witness:
  "''s2'' \<noteq> ''s1''
   \<and> setSessionError 3 ''s1'' ''boom'' (snd (createSession 0 ''s2'' ''q'' 2 1 Map.empty)) ''s2''
       = snd (createSession 0 ''s2'' ''q'' 2 1 Map.empty) ''s2''
   \<and> c_sessionId sampleCtx = ''s1''
   \<and> terminal_status (Rejected ''boom'') = Some Error
   \<and> map (status_of ''s1'')
        (trace sampleCtx (map OnProgress [sampleCallback 1 2] @ [Rejected ''boom''])
           (snd (research_handler ''s1'' sampleQuery initial_state)))
       = [Some Running, Some Running, Some Error]"
proof -
  have d: "''s2'' \<noteq> ''s1''" by simp
  have c: "c_sessionId sampleCtx = ''s1'' \<and> terminal_status (Rejected ''boom'') = Some Error"
    by (simp add: sampleCtx_def)
  note t = status_order_by_handler [where sid = "''s1''" and sid' = "''s2''" and now = 3
      and err = "''boom''" and sessions = "snd (createSession 0 ''s2'' ''q'' 2 1 Map.empty)"
      and ctx = sampleCtx and uid = "''s1''" and t = "Rejected ''boom''" and ts = Error
      and cbs = "[sampleCallback 1 2]" and q = sampleQuery and st = initial_state]
  from t d have "setSessionError 3 ''s1'' ''boom''
       (snd (createSession 0 ''s2'' ''q'' 2 1 Map.empty)) ''s2''
       = snd (createSession 0 ''s2'' ''q'' 2 1 Map.empty) ''s2''"
    by blast
  moreover from t c have "map (status_of ''s1'')
        (trace sampleCtx (map OnProgress [sampleCallback 1 2] @ [Rejected ''boom''])
           (snd (research_handler ''s1'' sampleQuery initial_state)))
       = [Some Running, Some Running, Some Error]"
    by simp
  ultimately show ?thesis using c d by blast
qed

section \<open>Progress percentages\<close>

lemma rne_bounds: "\<lfloor>q\<rfloor> \<le> rne q \<and> rne q \<le> \<lceil>q\<rceil>"
proof -
  have "q - of_int \<lfloor>q\<rfloor> \<noteq> 0 \<Longrightarrow> \<lceil>q\<rceil> = \<lfloor>q\<rfloor> + 1"
    by (metis ceiling_altdef eq_iff_diff_eq_0)
  moreover have "0 \<le> q - of_int \<lfloor>q\<rfloor>" by simp
  moreover have "\<lfloor>q\<rfloor> \<le> \<lceil>q\<rceil>" by (simp add: floor_le_ceiling)
  ultimately show ?thesis
    by (auto simp: rne_def Let_def)
qed

lemma rne_mono:
  assumes "p \<le> q"
  shows "rne p \<le> rne q"
proof (cases "\<lfloor>p\<rfloor> = \<lfloor>q\<rfloor>")
  case True
  with assms have "p - of_int \<lfloor>p\<rfloor> \<le> q - of_int \<lfloor>p\<rfloor>" by simp
  with True show ?thesis by (auto simp: rne_def Let_def)
next
  case False
  with assms have "\<lfloor>p\<rfloor> < \<lfloor>q\<rfloor>" by (simp add: floor_mono order.not_eq_order_implies_strict)
  moreover have "rne p \<le> \<lfloor>p\<rfloor> + 1" by (auto simp: rne_def Let_def)
  moreover have "\<lfloor>q\<rfloor> \<le> rne q" by (simp add: rne_bounds)
  ultimately show ?thesis by linarith
qed

lemma expo_bounds:
  assumes "0 < x"
  shows "2 powi expo x \<le> x \<and> x < 2 powi (expo x + 1)"
proof (cases "1 \<le> x")
  case True
  let ?n = "\<lfloor>x\<rfloor>"
  from True have n: "0 < ?n" by simp
  from bitlen_bounds [OF n] have lo: "2 ^ nat (bitlen ?n - 1) \<le> ?n"
    and hi: "?n < 2 ^ nat (bitlen ?n)" by simp_all
  from n have b: "1 \<le> bitlen ?n" by (simp add: bitlen_alt_def)
  have e: "expo x = bitlen ?n - 1" using True by (simp add: expo_def)
  have "(2::rat) powi expo x = of_int (2 ^ nat (bitlen ?n - 1))"
    using b by (simp add: e power_int_def)
  also have "\<dots> \<le> of_int ?n" using lo by (simp only: of_int_le_iff)
  also have "\<dots> \<le> x" by simp
  finally have l: "2 powi expo x \<le> x" .
  from hi have "?n + 1 \<le> 2 ^ nat (bitlen ?n)" by simp
  then have "(of_int (?n + 1) :: rat) \<le> of_int (2 ^ nat (bitlen ?n))"
    by (simp only: of_int_le_iff)
  moreover have "x < of_int (?n + 1)" using floor_correct [of x] by blast
  ultimately have "x < of_int (2 ^ nat (bitlen ?n))" by linarith
  also have "\<dots> = 2 powi (expo x + 1)"
    using b by (simp add: e power_int_def)
  finally show ?thesis using l by simp
next
  case False
  let ?y = "1 / x"
  let ?n = "\<lceil>?y\<rceil>"
  let ?k = "bitlen (?n - 1)"
  from False assms have y: "1 < ?y" by simp
  then have n: "0 < ?n - 1" by (simp add: less_ceiling_iff)
  from bitlen_bounds [OF n] have lo: "2 ^ nat (?k - 1) \<le> ?n - 1"
    and hi: "?n - 1 < 2 ^ nat ?k" by simp_all
  from n have b: "1 \<le> ?k" by (simp add: bitlen_alt_def)
  have e: "expo x = - ?k" using False by (simp add: expo_def)
  from hi have "?n \<le> 2 ^ nat ?k" by simp
  then have nk: "(of_int ?n :: rat) \<le> of_int (2 ^ nat ?k)" by (simp only: of_int_le_iff)
  have "?y \<le> of_int ?n" by (rule le_of_int_ceiling)
  also note nk
  also have "(of_int (2 ^ nat ?k) :: rat) = 2 ^ nat ?k" by simp
  finally have "?y \<le> 2 ^ nat ?k" .
  with assms have "1 \<le> x * 2 ^ nat ?k"
    by (simp add: divide_le_eq mult.commute)
  then have "1 / 2 ^ nat ?k \<le> x"
    by (simp add: divide_le_eq)
  moreover have "(2::rat) powi expo x = 1 / 2 ^ nat ?k"
    using b by (simp add: e power_int_def inverse_eq_divide power_one_over)
  ultimately have l: "2 powi expo x \<le> x" by simp
  from lo have "(of_int (2 ^ nat (?k - 1)) :: rat) \<le> of_int (?n - 1)"
    by (simp only: of_int_le_iff)
  also have "(of_int (?n - 1) :: rat) < ?y" using ceiling_correct [of ?y] by linarith
  finally have "(of_int (2 ^ nat (?k - 1)) :: rat) < ?y" .
  then have "2 ^ nat (?k - 1) < ?y" by simp
  with assms have "x * 2 ^ nat (?k - 1) < 1"
    by (simp add: less_divide_eq mult.commute)
  then have "x < 1 / 2 ^ nat (?k - 1)"
    by (simp add: less_divide_eq)
  moreover have "(2::rat) powi (expo x + 1) = 1 / 2 ^ nat (?k - 1)"
    using b by (simp add: e power_int_def inverse_eq_divide power_one_over)
  ultimately show ?thesis using l by simp
qed

lemma fl_pos_eq:
  "0 < x \<Longrightarrow> fl x = of_int (rne (x / 2 powi (expo x - 52))) * 2 powi (expo x - 52)"
  by (simp add: fl_def Let_def)

lemma fl_pos_bounds:
  assumes "0 < x"
  shows "2 powi expo x \<le> fl x \<and> fl x \<le> 2 powi (expo x + 1)"
proof -
  let ?e = "expo x"
  let ?u = "(2::rat) powi (?e - 52)"
  have u: "0 < ?u" by simp
  from expo_bounds [OF assms] have lo: "2 powi ?e \<le> x" and hi: "x < 2 powi (?e + 1)"
    by simp_all
  have e1: "(2::rat) powi ?e = 2 ^ 52 * ?u"
    by (simp add: power_int_diff)
  have e2: "(2::rat) powi (?e + 1) = 2 ^ 53 * ?u"
    by (simp add: power_int_diff power_int_add)
  from lo u have "(2::rat) ^ 52 \<le> x / ?u"
    by (simp add: e1 le_divide_eq)
  then have "(of_int (2 ^ 52) :: rat) \<le> x / ?u" by simp
  then have "2 ^ 52 \<le> \<lfloor>x / ?u\<rfloor>" by (simp only: le_floor_iff)
  with rne_bounds [of "x / ?u"] have "2 ^ 52 \<le> rne (x / ?u)" by linarith
  then have "(of_int (2 ^ 52) :: rat) \<le> of_int (rne (x / ?u))" by (simp only: of_int_le_iff)
  then have "(of_int (2 ^ 52) :: rat) * ?u \<le> of_int (rne (x / ?u)) * ?u"
    by (rule mult_right_mono) simp
  then have a: "2 ^ 52 * ?u \<le> of_int (rne (x / ?u)) * ?u" by simp
  from hi u have "x / ?u \<le> (2::rat) ^ 53"
    by (simp add: e2 divide_le_eq)
  then have "x / ?u \<le> (of_int (2 ^ 53) :: rat)" by simp
  then have "\<lceil>x / ?u\<rceil> \<le> 2 ^ 53" by (simp only: ceiling_le_iff)
  with rne_bounds [of "x / ?u"] have "rne (x / ?u) \<le> 2 ^ 53" by linarith
  then have "(of_int (rne (x / ?u)) :: rat) \<le> of_int (2 ^ 53)" by (simp only: of_int_le_iff)
  then have "(of_int (rne (x / ?u)) :: rat) * ?u \<le> of_int (2 ^ 53) * ?u"
    by (rule mult_right_mono) simp
  then have b: "of_int (rne (x / ?u)) * ?u \<le> 2 ^ 53 * ?u" by simp
  from a b show ?thesis
    by (simp only: fl_pos_eq [OF assms] e1 e2)
qed

lemma expo_mono:
  assumes "0 < x" and "x \<le> y"
  shows "expo x \<le> expo y"
proof (rule ccontr)
  assume "\<not> expo x \<le> expo y"
  then have "expo y + 1 \<le> expo x" by simp
  then have "(2::rat) powi (expo y + 1) \<le> 2 powi expo x"
    by (intro power_int_increasing) simp_all
  moreover from assms have "0 < y" by simp
  then have "y < 2 powi (expo y + 1)" using expo_bounds by blast
  moreover have "2 powi expo x \<le> x" using expo_bounds [OF assms(1)] by blast
  ultimately show False using assms(2) by linarith
qed

lemma fl_mono_pos:
  assumes "0 < x" and "x \<le> y"
  shows "fl x \<le> fl y"
proof (cases "expo x = expo y")
  case True
  from assms have y: "0 < y" by simp
  let ?u = "(2::rat) powi (expo y - 52)"
  have u: "0 < ?u" by simp
  from assms(2) u have "x / ?u \<le> y / ?u" by (simp add: divide_right_mono)
  then have "rne (x / ?u) \<le> rne (y / ?u)" by (rule rne_mono)
  then have "(of_int (rne (x / ?u)) :: rat) \<le> of_int (rne (y / ?u))"
    by (simp only: of_int_le_iff)
  then have "of_int (rne (x / ?u)) * ?u \<le> of_int (rne (y / ?u)) * ?u"
    by (rule mult_right_mono) simp
  then show ?thesis
    by (simp only: fl_pos_eq [OF assms(1)] fl_pos_eq [OF y] True)
next
  case False
  from assms have y: "0 < y" by simp
  from False expo_mono [OF assms] have "expo x + 1 \<le> expo y" by simp
  then have "(2::rat) powi (expo x + 1) \<le> 2 powi expo y"
    by (intro power_int_increasing) simp_all
  moreover have "fl x \<le> 2 powi (expo x + 1)" using fl_pos_bounds [OF assms(1)] by blast
  moreover have "2 powi expo y \<le> fl y" using fl_pos_bounds [OF y] by blast
  ultimately show ?thesis by linarith
qed

lemma fl_minus: "fl (- x) = - fl x"
  by (simp add: fl_def Let_def sgn_minus)

lemma fl_pos: "0 < x \<Longrightarrow> 0 < fl x"
proof -
  assume x: "0 < x"
  have "(0::rat) < 2 powi expo x" by simp
  also have "\<dots> \<le> fl x" using fl_pos_bounds [OF x] by blast
  finally show ?thesis .
qed

text \<open>Rounding to a double is monotone.\<close>

lemma fl_mono:
  assumes "x \<le> y"
  shows "fl x \<le> fl y"
proof -
  consider "0 < x" | "x = 0" | "x < 0" "y < 0" | "x < 0" "0 \<le> y" by linarith
  then show ?thesis
  proof cases
    case 1
    then show ?thesis using assms by (rule fl_mono_pos)
  next
    case 2
    show ?thesis
    proof (cases "y = 0")
      case True
      with 2 show ?thesis by simp
    next
      case False
      with 2 assms have "0 < y" by simp
      then have "0 < fl y" by (rule fl_pos)
      with 2 show ?thesis by (simp add: fl_def)
    qed
  next
    case 3
    then have "0 < - y" and "- y \<le> - x" using assms by simp_all
    then have "fl (- y) \<le> fl (- x)" by (rule fl_mono_pos)
    then show ?thesis by (simp add: fl_minus)
  next
    case 4
    then have "0 < fl (- x)" by (intro fl_pos) simp
    then have "fl x < 0" by (simp add: fl_minus)
    moreover have "0 \<le> fl y"
    proof (cases "y = 0")
      case True
      then show ?thesis by (simp add: fl_def)
    next
      case False
      with 4 have "0 < y" by simp
      then have "0 < fl y" by (rule fl_pos)
      then show ?thesis by simp
    qed
    ultimately show ?thesis by simp
  qed
qed

lemma fl_one: "fl 1 = 1"
  by code_simp

lemma fl_hundred: "fl 100 = 100"
  by code_simp

text \<open>
  The doubles differ from the exact values where the exact product is a half:
  23 of 40 is 57.49999999999999 in doubles and gives 57, where exact arithmetic gives 58.
\<close>

lemma percentage_in_doubles:
  "percentage 23 40 = 57 \<and> percentage 29 200 = 14 \<and> percentage 57 200 = 28
   \<and> percentage 1 2 = 50 \<and> percentage 1 3 = 33 \<and> percentage 2 3 = 67"
  by code_simp

lemma percentage_mono:
  assumes "completion c1 t1 \<le> completion c2 t2"
  shows "percentage c1 t1 \<le> percentage c2 t2"
proof -
  from assms have "fl (completion c1 t1) \<le> fl (completion c2 t2)"
    by (rule fl_mono)
  then have "fl (completion c1 t1) * 100 \<le> fl (completion c2 t2) * 100"
    by simp
  then have "fl (fl (completion c1 t1) * 100) \<le> fl (fl (completion c2 t2) * 100)"
    by (rule fl_mono)
  then show ?thesis
    unfolding percentage_def Math_round_def by (intro floor_mono) simp
qed

lemma percentage_le_100:
  assumes "c \<le> max t 1"
  shows "percentage c t \<le> 100"
proof -
  have pos: "(0::rat) < of_int (max t 1)" by simp
  from assms have "(of_int c :: rat) \<le> of_int (max t 1)" by (simp only: of_int_le_iff)
  with pos have "completion c t \<le> 1"
    unfolding completion_def by (simp add: divide_le_eq)
  then have "fl (completion c t) \<le> fl 1" by (rule fl_mono)
  then have "fl (completion c t) * 100 \<le> 100" by (simp add: fl_one)
  then have "fl (fl (completion c t) * 100) \<le> fl 100" by (rule fl_mono)
  then have "fl (fl (completion c t) * 100) + 1 / 2 \<le> 100 + 1 / 2"
    by (simp add: fl_hundred)
  then have "\<lfloor>fl (fl (completion c t) * 100) + 1 / 2\<rfloor> \<le> \<lfloor>(100::rat) + 1 / 2\<rfloor>"
    by (rule floor_mono)
  also have "\<lfloor>(100::rat) + 1 / 2\<rfloor> = 100" by (rule floor_unique) simp_all
  finally show ?thesis by (simp add: percentage_def Math_round_def)
qed

lemma published_progress_then:
  "published ctx (map OnProgress cbs @ [t])
     = map (researchProgress (c_sessionId ctx)) cbs @ emitted ctx t"
  by (induction cbs) (simp_all add: published_def)

lemma sorted_running_percentages:
  assumes "sorted (map (\<lambda>cb. completion (cb_completedQueries cb) (cb_totalQueries cb)) cbs)"
  shows "sorted (map (\<lambda>cb. p_progress (researchProgress sid cb)) cbs)"
  using assms
  by (induction cbs) (auto simp: researchProgress_def intro: percentage_mono)

text \<open>
  C4, as stated: the percentages of the progress events of a session never decrease, and
  the completed event carries 100. The second half holds. The first fails in two ways:
  a request that fails after a callback with one of two queries completed publishes 50
  and then the error event with 0; and a request whose callbacks report 1 of 1 and then
  1 of 2 publishes 100, 50 and then 100.
\<close>

theorem percentage_decreases_counterexample:
  "map p_progress (published sampleCtx
       [OnProgress (sampleCallback 1 2), Rejected ''report failed'']) = [50, 0]
   \<and> \<not> sorted (map p_progress (published sampleCtx
       [OnProgress (sampleCallback 1 2), Rejected ''report failed'']))
   \<and> map p_progress (published sampleCtx
       [OnProgress (sampleCallback 1 1), OnProgress (sampleCallback 1 2),
        Resolved [] [] ''report'']) = [100, 50, 100]
   \<and> \<not> sorted (map p_progress (published sampleCtx
       [OnProgress (sampleCallback 1 1), OnProgress (sampleCallback 1 2),
        Resolved [] [] ''report'']))"
  by code_simp

text \<open>
  C4, amended. Each running event carries the percentage computed, in doubles, from its
  own callback's counters and from nothing else. So for a request that completes, whose
  callbacks report ratios \<^verbatim>\<open>completedQueries / max(totalQueries, 1)\<close> that never
  decrease and never more completed queries than \<^verbatim>\<open>max(totalQueries, 1)\<close>, the
  percentages of its progress events never decrease; the completed event carries exactly
  100 in every case; and the error event of a request that fails carries 0.
\<close>

theorem percentage_monotone_when_ratio_is:
  assumes "sorted (map (\<lambda>cb. completion (cb_completedQueries cb) (cb_totalQueries cb)) cbs)"
    and "\<forall>cb \<in> set cbs. cb_completedQueries cb \<le> max (cb_totalQueries cb) 1"
  shows "sorted (map p_progress (published ctx (map OnProgress cbs @ [Resolved ls urls rep])))
       \<and> p_progress (last (published ctx (map OnProgress cbs @ [Resolved ls urls rep]))) = 100
       \<and> p_status (last (published ctx (map OnProgress cbs @ [Resolved ls urls rep])))
           = Completed
       \<and> p_progress (last (published ctx (map OnProgress cbs @ [Rejected errorMessage]))) = 0"
proof -
  have running: "sorted (map (\<lambda>cb. p_progress (researchProgress (c_sessionId ctx) cb)) cbs)"
    using assms(1) by (rule sorted_running_percentages)
  have top: "\<forall>cb \<in> set cbs. p_progress (researchProgress (c_sessionId ctx) cb) \<le> 100"
    using assms(2) by (simp add: researchProgress_def percentage_le_100)
  have "sorted (map p_progress (published ctx (map OnProgress cbs @ [Resolved ls urls rep])))"
    using running top
    by (simp add: published_progress_then sorted_append finalProgress_def comp_def)
  then show ?thesis
    by (simp add: published_progress_then finalProgress_def errorProgress_def)
qed

theorem percentage_monotone_when_ratio_is_witness:
  "sorted (map (\<lambda>cb. completion (cb_completedQueries cb) (cb_totalQueries cb))
       [sampleCallback 1 2, sampleCallback 2 2])
   \<and> cb_completedQueries (sampleCallback 1 2) \<le> max (cb_totalQueries (sampleCallback 1 2)) 1
   \<and> cb_completedQueries (sampleCallback 2 2) \<le> max (cb_totalQueries (sampleCallback 2 2)) 1
   \<and> sorted (map p_progress (published sampleCtx
       (map OnProgress [sampleCallback 1 2, sampleCallback 2 2] @ [Resolved [] [] ''report''])))
   \<and> p_progress (last (published sampleCtx
       (map OnProgress [sampleCallback 1 2, sampleCallback 2 2] @ [Resolved [] [] ''report''])))
       = 100"
proof -
  have h1: "sorted (map (\<lambda>cb. completion (cb_completedQueries cb) (cb_totalQueries cb))
       [sampleCallback 1 2, sampleCallback 2 2])"
    by (simp add: sampleCallback_def completion_def)
  have h2: "cb_completedQueries (sampleCallback 1 2) \<le> max (cb_totalQueries (sampleCallback 1 2)) 1
     \<and> cb_completedQueries (sampleCallback 2 2) \<le> max (cb_totalQueries (sampleCallback 2 2)) 1"
    by (simp add: sampleCallback_def)
  then have h3: "\<forall>cb \<in> set [sampleCallback 1 2, sampleCallback 2 2].
       cb_completedQueries cb \<le> max (cb_totalQueries cb) 1"
    by simp
  from percentage_monotone_when_ratio_is [OF h1 h3, of sampleCtx "[]" "[]" "''report''"]
  have "sorted (map p_progress (published sampleCtx
       (map OnProgress [sampleCallback 1 2, sampleCallback 2 2] @ [Resolved [] [] ''report''])))
   \<and> p_progress (last (published sampleCtx
       (map OnProgress [sampleCallback 1 2, sampleCallback 2 2] @ [Resolved [] [] ''report''])))
       = 100"
    by blast
  with h1 h2 show ?thesis by blast
qed

section \<open>Progress stream\<close>

lemma run_append: "run ctx (xs @ ys) st = run ctx ys (run ctx xs st)"
  by (simp add: run_def)

lemma run_Cons: "run ctx (ev # evs) st = run ctx evs (api_step ctx ev st)"
  by (simp add: run_def)

lemma published_append: "published ctx (xs @ ys) = published ctx xs @ published ctx ys"
  by (simp add: published_def)

lemma published_Cons: "published ctx (ev # evs) = emitted ctx ev @ published ctx evs"
  by (simp add: published_def)

lemma count_list_filter_keep:
  "P x \<Longrightarrow> count_list (filter P xs) x = count_list xs x"
  by (induction xs) auto

lemma count_list_remove1_other:
  "y \<noteq> x \<Longrightarrow> count_list (remove1 y xs) x = count_list xs x"
  by (induction xs) auto

lemma sendProgressUpdate_attached:
  assumes "attached res sid st"
  shows "written (sendProgressUpdate sid p st) res = written st res @ [p]
       \<and> attached res sid (sendProgressUpdate sid p st)"
proof -
  from assms obtain cs where cs: "sseClients st sid = Some cs"
    and one: "count_list cs res = 1" and ok: "res \<notin> broken st"
    by (auto simp: attached_def clients_of_def split: option.splits)
  from one have ne: "cs \<noteq> []" by auto
  let ?st1 = "foldl (\<lambda>s client. if client \<in> broken st then s else res_write client p s) st cs"
  let ?dead = "filter (\<lambda>client. client \<in> broken st) cs"
  let ?remaining = "filter (\<lambda>c. c \<notin> set ?dead) cs"
  have w: "written ?st1 res = written st res @ [p]"
    using one ok by (simp add: foldl_write_written)
  have keep: "count_list ?remaining res = 1"
    using one ok by (simp add: count_list_filter_keep)
  then have rne: "?remaining \<noteq> []" by auto
  show ?thesis
  proof (cases "?dead = []")
    case True
    then have "sendProgressUpdate sid p st = ?st1"
      using cs ne by (simp add: sendProgressUpdate_def Let_def)
    with w cs one ok show ?thesis
      by (simp add: attached_def clients_of_def foldl_write_frame)
  next
    case False
    then have "sendProgressUpdate sid p st
                 = ?st1\<lparr>sseClients := (sseClients ?st1)(sid \<mapsto> ?remaining)\<rparr>"
      using cs ne rne by (simp add: sendProgressUpdate_def Let_def)
    with w keep ok show ?thesis
      by (simp add: attached_def clients_of_def foldl_write_frame)
  qed
qed

lemma sendProgressUpdate_detached:
  assumes "res \<notin> set (clients_of sid st)"
  shows "written (sendProgressUpdate sid p st) res = written st res
       \<and> res \<notin> set (clients_of sid (sendProgressUpdate sid p st))"
  using assms
  by (auto simp: sendProgressUpdate_def Let_def clients_of_def foldl_write_frame
        foldl_write_written count_list_0_iff split: option.splits)

lemma attached_store_update:
  "attached res sid (st\<lparr>store := x\<rparr>) = attached res sid st"
  by (simp add: attached_def clients_of_def)

lemma api_step_attached:
  assumes "attached res (c_sessionId ctx) st"
    and "ev \<noteq> Break res" and "ev \<noteq> Disconnect res" and "ev \<noteq> Subscribe res"
  shows "written (api_step ctx ev st) res = written st res @ emitted ctx ev
       \<and> attached res (c_sessionId ctx) (api_step ctx ev st)"
proof (cases ev)
  case (Tick ms)
  with assms(1) show ?thesis by (simp add: attached_def clients_of_def)
next
  case (Break r)
  with assms(1,2) show ?thesis by (simp add: attached_def clients_of_def)
next
  case (Subscribe r)
  with assms(4) have "r \<noteq> res" by simp
  with assms(1) Subscribe show ?thesis
    by (auto simp: progress_connect_def Let_def getSession_def attached_def clients_of_def
          res_write_def split: option.splits prod.splits if_splits)
next
  case (Disconnect r)
  with assms(3) have neq: "r \<noteq> res" by simp
  from assms(1) obtain cs where cs: "sseClients st (c_sessionId ctx) = Some cs"
    and one: "count_list cs res = 1"
    by (auto simp: attached_def clients_of_def split: option.splits)
  from neq one have c1: "count_list (remove1 r cs) res = 1"
    by (simp add: count_list_remove1_other)
  have "remove1 r cs \<noteq> []"
  proof
    assume e: "remove1 r cs = []"
    from c1 show False unfolding e by simp
  qed
  with c1 show ?thesis
    using Disconnect cs assms(1)
    by (simp add: progress_close_def Let_def attached_def clients_of_def)
next
  case (OnProgress cb)
  let ?st1 = "st\<lparr>store := updateSessionProgress (clock st) (c_sessionId ctx)
                 (researchProgress (c_sessionId ctx) cb) (store st)\<rparr>"
  from assms(1) have "attached res (c_sessionId ctx) ?st1"
    by (simp add: attached_store_update)
  from sendProgressUpdate_attached [OF this] OnProgress show ?thesis
    by (simp add: onProgress_def Let_def)
next
  case (Resolved ls urls rep)
  let ?st1 = "st\<lparr>store := updateSessionResult (clock st) (c_sessionId ctx)
       \<lparr> r_sessionId = c_sessionId ctx, r_query = c_query ctx, learnings = ls,
         visitedUrls = urls, report = Some rep, timestamp = clock st,
         duration = clock st - c_startTime ctx, success = True, r_error = None \<rparr>
       (store st)\<rparr>"
  from assms(1) have "attached res (c_sessionId ctx) ?st1"
    by (simp add: attached_store_update)
  from sendProgressUpdate_attached [OF this] Resolved show ?thesis
    by (simp add: research_then_def Let_def)
next
  case (Rejected errorMessage)
  let ?st1 = "st\<lparr>store := setSessionError (clock st) (c_sessionId ctx) errorMessage
                 (store st)\<rparr>"
  from assms(1) have "attached res (c_sessionId ctx) ?st1"
    by (simp add: attached_store_update)
  from sendProgressUpdate_attached [OF this] Rejected show ?thesis
    by (simp add: research_catch_def Let_def)
qed

lemma run_attached:
  assumes "attached res (c_sessionId ctx) st"
    and "\<forall>ev \<in> set evs. ev \<noteq> Break res \<and> ev \<noteq> Disconnect res \<and> ev \<noteq> Subscribe res"
  shows "written (run ctx evs st) res = written st res @ published ctx evs"
  using assms
proof (induction evs arbitrary: st)
  case Nil
  show ?case by (simp add: run_def published_def)
next
  case (Cons ev evs)
  from Cons.prems have step:
    "written (api_step ctx ev st) res = written st res @ emitted ctx ev"
    "attached res (c_sessionId ctx) (api_step ctx ev st)"
    using api_step_attached [of res ctx st ev] by simp_all
  from Cons.IH [OF step(2)] Cons.prems(2) step(1) show ?case
    by (simp add: run_Cons published_Cons)
qed

lemma waiting_research_handler:
  assumes "written st res = []" and "res \<notin> broken st" and "res \<notin> set (clients_of uid st)"
  shows "waiting res uid None SESSION_EXPIRY_MS (snd (research_handler uid q st))"
  using assms
  by (simp add: waiting_def research_handler_def createSession_def updateSessionStatus_def
        clients_of_def)

lemma waiting_onProgress:
  assumes "waiting res (c_sessionId ctx) latest slack st"
  shows "waiting res (c_sessionId ctx) (Some (researchProgress (c_sessionId ctx) cb)) slack
           (onProgress ctx cb st)"
proof -
  let ?sid = "c_sessionId ctx"
  let ?rp = "researchProgress ?sid cb"
  let ?st1 = "st\<lparr>store := updateSessionProgress (clock st) ?sid ?rp (store st)\<rparr>"
  from assms obtain s where s: "store st ?sid = Some s" "clock st + slack \<le> expiresAt s"
    and w: "written st res = []" "res \<notin> broken st" "res \<notin> set (clients_of ?sid st)"
    by (auto simp: waiting_def)
  from w(3) have "res \<notin> set (clients_of ?sid ?st1)" by (simp add: clients_of_def)
  from sendProgressUpdate_detached [OF this, of ?rp] w s show ?thesis
    by (simp add: waiting_def onProgress_def Let_def sendProgressUpdate_frame
          updateSessionProgress_def)
qed

lemma waiting_run_progress:
  assumes "waiting res (c_sessionId ctx) None slack st"
  shows "waiting res (c_sessionId ctx)
           (if cbs = [] then None else Some (researchProgress (c_sessionId ctx) (last cbs)))
           slack (run ctx (map OnProgress cbs) st)"
proof (induction cbs rule: rev_induct)
  case Nil
  from assms show ?case by (simp add: run_def)
next
  case (snoc cb cbs)
  from waiting_onProgress [OF snoc.IH, of cb] show ?case
    by (simp add: run_append run_Cons run_def)
qed

lemma waiting_Tick:
  assumes "waiting res sid latest slack st"
  shows "waiting res sid latest (slack - int ms) (api_step ctx (Tick ms) st)"
  using assms by (auto simp: waiting_def clients_of_def)

lemma progress_connect_waiting:
  assumes "waiting res sid latest slack st" and "0 \<le> slack"
  shows "written (progress_connect sid res st) res
           = (case latest of None \<Rightarrow> [] | Some p \<Rightarrow> [p])
       \<and> attached res sid (progress_connect sid res st)"
proof -
  from assms obtain s where s: "store st sid = Some s" "clock st \<le> expiresAt s"
    "progress s = latest"
    and w: "written st res = []" "res \<notin> broken st" "res \<notin> set (clients_of sid st)"
    by (auto simp: waiting_def)
  from w(3) have "count_list (clients_of sid st @ [res]) res = 1"
    by (simp add: count_list_0_iff)
  with s w show ?thesis
    by (auto simp: progress_connect_def Let_def getSession_def attached_def clients_of_def
          res_write_def split: option.splits)
qed

text \<open>
  C5, as stated: a subscriber that attaches after N events receives the min(N, bufferSize)
  most recent ones from a ring buffer, then the live events, and its stream ends with
  one terminal event. There is no buffer: the handler replays the one progress snapshot
  stored with the session, which \<^verbatim>\<open>updateSessionProgress\<close> sets and the terminal
  events do not. After two callbacks and the completed event (three events), a
  subscriber receives the snapshot of the second callback alone, which is not the last
  1, 2 or 3 events published, and no terminal event; after two callbacks of a request
  still running it receives one replayed event, not two.
\<close>

theorem late_subscriber_replay_counterexample:
  "length (published sampleCtx
       [OnProgress (sampleCallback 1 2), OnProgress (sampleCallback 2 2),
        Resolved [] [] ''report'']) = 3
   \<and> written (run sampleCtx
       [OnProgress (sampleCallback 1 2), OnProgress (sampleCallback 2 2),
        Resolved [] [] ''report'', Subscribe 1]
       (snd (research_handler ''s1'' sampleQuery initial_state))) 1
      = [researchProgress ''s1'' (sampleCallback 2 2)]
   \<and> [researchProgress ''s1'' (sampleCallback 2 2)]
      \<noteq> drop (3 - min 3 1) (published sampleCtx
       [OnProgress (sampleCallback 1 2), OnProgress (sampleCallback 2 2),
        Resolved [] [] ''report''])
   \<and> [researchProgress ''s1'' (sampleCallback 2 2)]
      \<noteq> drop (3 - min 3 2) (published sampleCtx
       [OnProgress (sampleCallback 1 2), OnProgress (sampleCallback 2 2),
        Resolved [] [] ''report''])
   \<and> [researchProgress ''s1'' (sampleCallback 2 2)]
      \<noteq> drop (3 - min 3 3) (published sampleCtx
       [OnProgress (sampleCallback 1 2), OnProgress (sampleCallback 2 2),
        Resolved [] [] ''report''])
   \<and> filter (\<lambda>p. p_status p \<noteq> Running) (written (run sampleCtx
       [OnProgress (sampleCallback 1 2), OnProgress (sampleCallback 2 2),
        Resolved [] [] ''report'', Subscribe 1]
       (snd (research_handler ''s1'' sampleQuery initial_state))) 1) = []
   \<and> written (run sampleCtx
       [OnProgress (sampleCallback 1 2), OnProgress (sampleCallback 2 2), Subscribe 1,
        Resolved [] [] ''report'']
       (snd (research_handler ''s1'' sampleQuery initial_state))) 1
      = [researchProgress ''s1'' (sampleCallback 2 2), finalProgress ''s1'' 1 2 []]"
  by code_simp

text \<open>
  C5, amended. A subscriber that attaches to the stream of a session after N progress
  callbacks have fired, while the request is still running and within the session's 24
  hours, receives min(N, 1) replayed events: the stored snapshot of the latest callback
  (there is no buffer of earlier events). It then receives every event published
  afterwards, in order, as long as it stays attached and its \<^verbatim>\<open>write\<close> does not
  throw; and when the request settles, the terminal event (completed or error) is the
  last entry of its stream and the only one that is not a running event.
\<close>

theorem late_subscriber_stream:
  assumes "c_sessionId ctx = uid"
    and "written st res = []" and "res \<notin> broken st" and "res \<notin> set (clients_of uid st)"
    and "int ms \<le> SESSION_EXPIRY_MS"
    and "\<forall>ev \<in> set evs. terminal_status ev = None
           \<and> ev \<noteq> Break res \<and> ev \<noteq> Disconnect res \<and> ev \<noteq> Subscribe res"
    and "terminal_status t = Some ts"
  shows "written (run ctx (map OnProgress cbs @ [Tick ms, Subscribe res] @ evs @ [t])
                    (snd (research_handler uid q st))) res
           = (if cbs = [] then [] else [researchProgress uid (last cbs)])
             @ published ctx evs @ emitted ctx t
       \<and> filter (\<lambda>p. p_status p \<noteq> Running)
           (written (run ctx (map OnProgress cbs @ [Tick ms, Subscribe res] @ evs @ [t])
                      (snd (research_handler uid q st))) res)
           = emitted ctx t
       \<and> map p_status (emitted ctx t) = [ts]"
proof -
  let ?st0 = "snd (research_handler uid q st)"
  let ?st1 = "api_step ctx (Tick ms) (run ctx (map OnProgress cbs) ?st0)"
  let ?st2 = "progress_connect uid res ?st1"
  have "waiting res uid None SESSION_EXPIRY_MS ?st0"
    using assms(2-4) by (rule waiting_research_handler)
  then have w0: "waiting res (c_sessionId ctx) None SESSION_EXPIRY_MS ?st0"
    by (simp only: assms(1))
  have "waiting res (c_sessionId ctx)
          (if cbs = [] then None else Some (researchProgress (c_sessionId ctx) (last cbs)))
          SESSION_EXPIRY_MS (run ctx (map OnProgress cbs) ?st0)"
    by (rule waiting_run_progress [OF w0])
  then have "waiting res (c_sessionId ctx)
          (if cbs = [] then None else Some (researchProgress (c_sessionId ctx) (last cbs)))
          (SESSION_EXPIRY_MS - int ms) ?st1"
    by (rule waiting_Tick)
  from progress_connect_waiting [OF this] assms(5)
  have replay: "written ?st2 res = (if cbs = [] then [] else [researchProgress uid (last cbs)])"
    and att: "attached res (c_sessionId ctx) ?st2"
    by (simp_all add: assms(1) split: if_splits)
  have quiet: "\<forall>ev \<in> set (evs @ [t]). ev \<noteq> Break res \<and> ev \<noteq> Disconnect res \<and> ev \<noteq> Subscribe res"
    using assms(6,7) by auto
  have stream: "written (run ctx (map OnProgress cbs @ [Tick ms, Subscribe res] @ evs @ [t]) ?st0)
             res
           = (if cbs = [] then [] else [researchProgress uid (last cbs)])
             @ published ctx evs @ emitted ctx t"
    using run_attached [OF att quiet] replay assms(1)
    by (simp add: run_append run_Cons published_append published_Cons published_def run_def)
  have running: "filter (\<lambda>p. p_status p \<noteq> Running) (published ctx evs) = []"
    using assms(6)
  proof (induction evs)
    case Nil
    show ?case by (simp add: published_def)
  next
    case (Cons ev evs)
    then have "terminal_status ev = None" by simp
    then have "filter (\<lambda>p. p_status p \<noteq> Running) (emitted ctx ev) = []"
      by (cases ev) (simp_all add: researchProgress_def)
    with Cons show ?case by (simp add: published_Cons)
  qed
  have fin: "filter (\<lambda>p. p_status p \<noteq> Running) (emitted ctx t) = emitted ctx t
              \<and> map p_status (emitted ctx t) = [ts]"
    using assms(7) by (cases t) (auto simp: finalProgress_def errorProgress_def)
  from stream running fin show ?thesis
    by (simp add: researchProgress_def)
qed

theorem late_subscriber_stream_witness:
  "c_sessionId sampleCtx = ''s1''
   \<and> written initial_state 1 = [] \<and> 1 \<notin> broken initial_state
   \<and> 1 \<notin> set (clients_of ''s1'' initial_state)
   \<and> int 5000 \<le> SESSION_EXPIRY_MS
   \<and> terminal_status (OnProgress (sampleCallback 2 2)) = None
   \<and> OnProgress (sampleCallback 2 2) \<noteq> Break 1
   \<and> OnProgress (sampleCallback 2 2) \<noteq> Disconnect 1
   \<and> OnProgress (sampleCallback 2 2) \<noteq> Subscribe 1
   \<and> terminal_status (Resolved [] [] ''report'') = Some Completed
   \<and> written (run sampleCtx
        (map OnProgress [sampleCallback 1 2] @ [Tick 5000, Subscribe 1]
           @ [OnProgress (sampleCallback 2 2)] @ [Resolved [] [] ''report''])
        (snd (research_handler ''s1'' sampleQuery initial_state))) 1
      = [researchProgress ''s1'' (sampleCallback 1 2),
         researchProgress ''s1'' (sampleCallback 2 2),
         finalProgress ''s1'' 1 2 []]"
proof -
  have c: "c_sessionId sampleCtx = ''s1''" by (simp add: sampleCtx_def)
  have f: "written initial_state 1 = []" "1 \<notin> broken initial_state"
    "1 \<notin> set (clients_of ''s1'' initial_state)"
    by (simp_all add: initial_state_def clients_of_def)
  have m: "int 5000 \<le> SESSION_EXPIRY_MS" by (simp add: SESSION_EXPIRY_MS_def)
  have e: "terminal_status (OnProgress (sampleCallback 2 2)) = None
     \<and> OnProgress (sampleCallback 2 2) \<noteq> Break 1
     \<and> OnProgress (sampleCallback 2 2) \<noteq> Disconnect 1
     \<and> OnProgress (sampleCallback 2 2) \<noteq> Subscribe 1"
    by simp
  then have q: "\<forall>ev \<in> set [OnProgress (sampleCallback 2 2)]. terminal_status ev = None
           \<and> ev \<noteq> Break 1 \<and> ev \<noteq> Disconnect 1 \<and> ev \<noteq> Subscribe 1"
    by simp
  have t: "terminal_status (Resolved [] [] ''report'') = Some Completed" by simp
  from late_subscriber_stream [OF c f m q t, of "[sampleCallback 1 2]" sampleQuery]
  have "written (run sampleCtx
        (map OnProgress [sampleCallback 1 2] @ [Tick 5000, Subscribe 1]
           @ [OnProgress (sampleCallback 2 2)] @ [Resolved [] [] ''report''])
        (snd (research_handler ''s1'' sampleQuery initial_state))) 1
      = [researchProgress ''s1'' (sampleCallback 1 2),
         researchProgress ''s1'' (sampleCallback 2 2),
         finalProgress ''s1'' 1 2 []]"
    by (simp add: published_def sampleCtx_def)
  with c f m e t show ?thesis by blast
qed

end
